theory Spec2Isabelle
  imports Main "HOL-Library.AList"
begin

section \<open>Python values read from the JSON files\<close>

text \<open>
  \<open>projet1.py\<close> loads \<open>subjects.json\<close> and \<open>rooms.json\<close> with \<open>json.load\<close> and walks the
  resulting Python values. A value is one of the seven shapes that \<open>json.load\<close> returns.
  A Python dictionary is an association list in insertion order, read with \<open>map_of\<close> and
  written with \<open>AList.update\<close> (an existing key keeps its position, a new key goes last).
  A Python string is a list of characters; the characters are the code points below 256.
  A finite float is \<open>m * 2 ^ e\<close>, which is what a binary floating point number is.
\<close>

datatype pyfloat = Finite int int | PosInf | NegInf | NaN

datatype json =
    JNull
  | JBool bool
  | JInt int
  | JFloat pyfloat
  | JStr string
  | JArr "json list"
  | JObj "(string \<times> json) list"

datatype pyerror = KeyError | TypeError | AttributeError | ValueError | OverflowError

text \<open>\<open>d[k]\<close> on a dictionary: the value, or \<open>KeyError\<close>.\<close>

definition dict_get :: "('k \<times> 'v) list \<Rightarrow> 'k \<Rightarrow> pyerror + 'v" where
  "dict_get d k = (case map_of d k of None \<Rightarrow> Inl KeyError | Some v \<Rightarrow> Inr v)"

text \<open>\<open>v[k]\<close> with a string key on a loaded value: only a dictionary can be subscripted
  with a string, every other shape raises \<open>TypeError\<close>.\<close>

fun py_getitem :: "json \<Rightarrow> string \<Rightarrow> pyerror + json" where
  "py_getitem (JObj kvs) k = dict_get kvs k"
| "py_getitem _ k = Inl TypeError"

text \<open>\<open>v.items()\<close>: only a dictionary has the method.\<close>

fun py_items :: "json \<Rightarrow> pyerror + (string \<times> json) list" where
  "py_items (JObj kvs) = Inr kvs"
| "py_items _ = Inl AttributeError"

text \<open>\<open>for x in v\<close>: a list yields its elements, a dictionary its keys, a string its
  characters as one-character strings; nothing else is iterable.\<close>

fun py_iter :: "json \<Rightarrow> pyerror + json list" where
  "py_iter (JArr xs) = Inr xs"
| "py_iter (JObj kvs) = Inr (map (\<lambda>kv. JStr (fst kv)) kvs)"
| "py_iter (JStr s) = Inr (map (\<lambda>c. JStr [c]) s)"
| "py_iter _ = Inl TypeError"

subsection \<open>\<open>str.strip\<close> and \<open>int\<close>\<close>

definition is_space :: "char \<Rightarrow> bool" where
  "is_space c \<longleftrightarrow> (of_char c :: nat) \<in> set [9, 10, 11, 12, 13, 28, 29, 30, 31, 32, 133, 160]"

definition strip :: "string \<Rightarrow> string" where
  "strip s = rev (dropWhile is_space (rev (dropWhile is_space s)))"

definition digit_val :: "char \<Rightarrow> int option" where
  "digit_val c = (let n = (of_char c :: nat) in if 48 \<le> n \<and> n \<le> 57 then Some (int n - 48) else None)"

text \<open>The digits after the first one; a single underscore may stand between two digits.\<close>

fun digits_value :: "int \<Rightarrow> string \<Rightarrow> int option" where
  "digits_value acc [] = Some acc"
| "digits_value acc [c] =
     (case digit_val c of None \<Rightarrow> None | Some v \<Rightarrow> Some (10 * acc + v))"
| "digits_value acc (c # d # ds) =
     (if c = CHR ''_'' then
        (case digit_val d of None \<Rightarrow> None | Some v \<Rightarrow> digits_value (10 * acc + v) ds)
      else
        (case digit_val c of None \<Rightarrow> None | Some v \<Rightarrow> digits_value (10 * acc + v) (d # ds)))"

definition max_str_digits :: nat where
  "max_str_digits = 4300"

text \<open>\<open>int(s)\<close> skips less than \<open>str.strip\<close> removes: the whitespace of the C locale and
  the two other blanks below 256, U+0085 and U+00A0, but not the separators U+001C to
  U+001F.\<close>

definition is_int_space :: "char \<Rightarrow> bool" where
  "is_int_space c \<longleftrightarrow> (of_char c :: nat) \<in> set [9, 10, 11, 12, 13, 32, 133, 160]"

definition int_strip :: "string \<Rightarrow> string" where
  "int_strip s = rev (dropWhile is_int_space (rev (dropWhile is_int_space s)))"

text \<open>\<open>int(s)\<close> for a string: surrounding whitespace, an optional sign, decimal digits.
  More digits than \<open>sys.int_info.default_max_str_digits\<close> raise \<open>ValueError\<close> too.\<close>

definition int_of_str :: "string \<Rightarrow> pyerror + int" where
  "int_of_str s =
     (let t = int_strip s;
          neg = (t \<noteq> [] \<and> hd t = CHR ''-'');
          body = (if t \<noteq> [] \<and> (hd t = CHR ''-'' \<or> hd t = CHR ''+'') then tl t else t)
      in case body of
           [] \<Rightarrow> Inl ValueError
         | c # cs \<Rightarrow>
            (case digit_val c of
               None \<Rightarrow> Inl ValueError
             | Some v \<Rightarrow>
                (case digits_value v cs of
                   None \<Rightarrow> Inl ValueError
                 | Some n \<Rightarrow>
                    if length (filter (\<lambda>x. digit_val x \<noteq> None) body) > max_str_digits
                    then Inl ValueError
                    else Inr (if neg then - n else n))))"

text \<open>\<open>int(f)\<close> for a float truncates towards zero.\<close>

fun int_of_float :: "pyfloat \<Rightarrow> pyerror + int" where
  "int_of_float (Finite m e) =
     (if 0 \<le> e then Inr (m * 2 ^ nat e)
      else Inr (sgn m * (\<bar>m\<bar> div 2 ^ nat (- e))))"
| "int_of_float NaN = Inl ValueError"
| "int_of_float _ = Inl OverflowError"

fun py_int :: "json \<Rightarrow> pyerror + int" where
  "py_int (JInt n) = Inr n"
| "py_int (JBool b) = Inr (if b then 1 else 0)"
| "py_int (JFloat f) = int_of_float f"
| "py_int (JStr s) = int_of_str s"
| "py_int _ = Inl TypeError"

section \<open>The catalogue: \<open>TimeTableGenerator.__init__\<close> and \<open>extract_data\<close>\<close>

record catalogue =
  L :: "string list"
  C :: "string list"
  R :: "string list"
  T :: "string list"
  programme :: "(string \<times> string list) list"
  course_teachers :: "(string \<times> string list) list"
  course_credits :: "(string \<times> int) list"

text \<open>The grid and the weights are fixed by \<open>__init__\<close> and never assigned again.\<close>

definition D :: "int list" where
  "D = [1..6]"

definition P :: "int list" where
  "P = [1..5]"

definition weights :: "(int \<times> int) list" where
  "weights = [(1, 5), (2, 4), (3, 3), (4, 2), (5, 1)]"

definition init_catalogue :: catalogue where
  "init_catalogue = \<lparr> L = [], C = [], R = [], T = [], programme = [],
                       course_teachers = [], course_credits = [] \<rparr>"

fun clean_string :: "json \<Rightarrow> string" where
  "clean_string (JStr s) = strip s"
| "clean_string _ = []"

definition default_teacher :: string where
  "default_teacher = ''ENSEIGNANT_DEFAUT''"

text \<open>A loop whose body may raise: the first error ends it.\<close>

fun fold_err :: "('a \<Rightarrow> 's \<Rightarrow> pyerror + 's) \<Rightarrow> 'a list \<Rightarrow> 's \<Rightarrow> pyerror + 's" where
  "fold_err f [] s = Inr s"
| "fold_err f (x # xs) s = (case f x s of Inl e \<Rightarrow> Inl e | Inr s' \<Rightarrow> fold_err f xs s')"

text \<open>\<open>int(subject.get('credit', 0))\<close> inside \<open>try\<close> with a bare \<open>except\<close>.\<close>

definition credit_of :: "(string \<times> json) list \<Rightarrow> int" where
  "credit_of subject =
     (case py_int (case map_of subject ''credit'' of None \<Rightarrow> JInt 0 | Some v \<Rightarrow> v) of
        Inl e \<Rightarrow> 0
      | Inr n \<Rightarrow> n)"

text \<open>The body of both lecturer loops (lines 83-90 and 94-101); the state carries
  \<open>teachers_found\<close>.\<close>

definition add_lecturer :: "string \<Rightarrow> json \<Rightarrow> catalogue \<times> bool \<Rightarrow> pyerror + catalogue \<times> bool" where
  "add_lecturer course_code lv sf =
     (let st = fst sf; lecturer = clean_string lv in
      if lecturer = [] then Inr sf
      else
        let st1 = (if lecturer \<notin> set (T st) then st\<lparr>T := T st @ [lecturer]\<rparr> else st) in
        case dict_get (course_teachers st1) course_code of
          Inl e \<Rightarrow> Inl e
        | Inr ts \<Rightarrow>
            Inr (if lecturer \<notin> set ts
                 then st1\<lparr>course_teachers :=
                        AList.update course_code (ts @ [lecturer]) (course_teachers st1)\<rparr>
                 else st1, True))"

definition read_lecturers ::
  "string \<Rightarrow> (string \<times> json) list \<Rightarrow> string \<Rightarrow> catalogue \<times> bool \<Rightarrow> pyerror + catalogue \<times> bool" where
  "read_lecturers field subject course_code sf =
     (case map_of subject field of
        None \<Rightarrow> Inr sf
      | Some v \<Rightarrow>
         (case py_iter v of
            Inl e \<Rightarrow> Inl e
          | Inr ls \<Rightarrow> fold_err (add_lecturer course_code) ls sf))"

text \<open>Lines 103-107.\<close>

definition add_default :: "string \<Rightarrow> catalogue \<times> bool \<Rightarrow> pyerror + catalogue" where
  "add_default course_code sf =
     (let st = fst sf in
      if snd sf then Inr st
      else
        let st1 = (if default_teacher \<notin> set (T st) then st\<lparr>T := T st @ [default_teacher]\<rparr> else st) in
        case dict_get (course_teachers st1) course_code of
          Inl e \<Rightarrow> Inl e
        | Inr ts \<Rightarrow>
            Inr (st1\<lparr>course_teachers :=
                   AList.update course_code (ts @ [default_teacher]) (course_teachers st1)\<rparr>))"

text \<open>Lines 68-74.\<close>

definition register_course :: "string \<Rightarrow> (string \<times> json) list \<Rightarrow> catalogue \<Rightarrow> catalogue" where
  "register_course course_code subject st =
     (if course_code \<notin> set (C st)
      then st\<lparr>C := C st @ [course_code],
              course_teachers := AList.update course_code [] (course_teachers st),
              course_credits := AList.update course_code (credit_of subject) (course_credits st)\<rparr>
      else st)"

text \<open>The body of the loop over \<open>semester_data['subjects']\<close> (lines 63-107).
  \<open>subject['code']\<close> raises \<open>TypeError\<close> when the descriptor is not a dictionary.\<close>

fun process_subject :: "string \<Rightarrow> json \<Rightarrow> catalogue \<Rightarrow> pyerror + catalogue" where
  "process_subject class_name (JObj subject) st =
     (case dict_get subject ''code'' of
        Inl e \<Rightarrow> Inl e
      | Inr cv \<Rightarrow>
         (let course_code = clean_string cv in
          if course_code = [] then Inr st
          else
            let st1 = register_course course_code subject st in
            case dict_get (programme st1) class_name of
              Inl e \<Rightarrow> Inl e
            | Inr cs \<Rightarrow>
               (let st2 = st1\<lparr>programme :=
                             AList.update class_name (cs @ [course_code]) (programme st1)\<rparr> in
                case read_lecturers ''Course Lecturer'' subject course_code (st2, False) of
                  Inl e \<Rightarrow> Inl e
                | Inr sf3 \<Rightarrow>
                   (case read_lecturers ''Assitant lecturer'' subject course_code sf3 of
                      Inl e \<Rightarrow> Inl e
                    | Inr sf4 \<Rightarrow> add_default course_code sf4))))"
| "process_subject class_name _ st = Inl TypeError"

text \<open>The body of the loop over \<open>level_data.items()\<close> (lines 58-107).\<close>

definition process_semester :: "string \<Rightarrow> string \<times> json \<Rightarrow> catalogue \<Rightarrow> pyerror + catalogue" where
  "process_semester level sem st =
     (let class_name = ''Niveau '' @ level @ ''-'' @ fst sem;
          st1 = st\<lparr>L := L st @ [class_name],
                   programme := AList.update class_name [] (programme st)\<rparr>
      in case py_getitem (snd sem) ''subjects'' of
           Inl e \<Rightarrow> Inl e
         | Inr v \<Rightarrow>
            (case py_iter v of
               Inl e \<Rightarrow> Inl e
             | Inr subjects \<Rightarrow> fold_err (process_subject class_name) subjects st1))"

text \<open>The body of the loop over \<open>self.subjects_data['niveau'].items()\<close>.\<close>

definition process_level :: "string \<times> json \<Rightarrow> catalogue \<Rightarrow> pyerror + catalogue" where
  "process_level lev st =
     (case py_items (snd lev) of
        Inl e \<Rightarrow> Inl e
      | Inr sems \<Rightarrow> fold_err (process_semester (fst lev)) sems st)"

text \<open>The body of the loop over \<open>self.rooms_data['Informatique']\<close> (lines 110-113).\<close>

definition process_room :: "json \<Rightarrow> catalogue \<Rightarrow> pyerror + catalogue" where
  "process_room room st =
     (case py_getitem room ''num'' of
        Inl e \<Rightarrow> Inl e
      | Inr v \<Rightarrow>
         (let room_num = clean_string v in
          Inr (if room_num \<noteq> [] then st\<lparr>R := R st @ [room_num]\<rparr> else st)))"

definition extract_subjects :: "json \<Rightarrow> catalogue \<Rightarrow> pyerror + catalogue" where
  "extract_subjects subjects_data st =
     (case py_getitem subjects_data ''niveau'' of
        Inl e \<Rightarrow> Inl e
      | Inr nv \<Rightarrow>
         (case py_items nv of
            Inl e \<Rightarrow> Inl e
          | Inr levels \<Rightarrow> fold_err process_level levels st))"

definition extract_rooms :: "json \<Rightarrow> catalogue \<Rightarrow> pyerror + catalogue" where
  "extract_rooms rooms_data st =
     (case py_getitem rooms_data ''Informatique'' of
        Inl e \<Rightarrow> Inl e
      | Inr v \<Rightarrow>
         (case py_iter v of
            Inl e \<Rightarrow> Inl e
          | Inr rooms \<Rightarrow> fold_err process_room rooms st))"

text \<open>\<open>extract_data\<close>, called by \<open>__init__\<close> on the empty catalogue: the subjects, then the
  rooms. The three \<open>print\<close> calls at its end change nothing.\<close>

definition extract_data :: "json \<Rightarrow> json \<Rightarrow> pyerror + catalogue" where
  "extract_data subjects_data rooms_data =
     (case extract_subjects subjects_data init_catalogue of
        Inl e \<Rightarrow> Inl e
      | Inr st \<Rightarrow> extract_rooms rooms_data st)"

section \<open>The constraint model: \<open>generate_timetable\<close>, lines 124-215\<close>

text \<open>
  \<open>model.NewBoolVar(name)\<close> adds a Boolean variable to the model and returns it. A
  variable is its index in the model, in the order of creation. The name is the format
  string of line 138 or 144; it is kept as the values that the string formats. The
  dictionaries \<open>x\<close> and \<open>y\<close> map a key to the variable stored under it: when the loops
  meet a key twice, the second variable replaces the first in the dictionary and the
  first stays in the model.
\<close>

type_synonym xkey = "string \<times> string \<times> string \<times> int \<times> int \<times> string"

type_synonym ykey = "string \<times> string"

type_synonym var = nat

datatype varname = XName xkey | YName ykey

text \<open>A summand of a linear expression: a coefficient times a variable, or a number.\<close>

datatype summand = Term int var | Const int

datatype constr = LinLe "summand list" int | LinEq var "summand list"

record cp_model =
  variables :: "varname list"
  constraints :: "constr list"
  objective :: "summand list"

definition empty_model :: cp_model where
  "empty_model = \<lparr> variables = [], constraints = [], objective = [] \<rparr>"

definition new_bool_var :: "varname \<Rightarrow> cp_model \<Rightarrow> var \<times> cp_model" where
  "new_bool_var name m = (length (variables m), m\<lparr>variables := variables m @ [name]\<rparr>)"

definition bind_err :: "pyerror + 'a \<Rightarrow> ('a \<Rightarrow> pyerror + 'b) \<Rightarrow> pyerror + 'b" where
  "bind_err m f = (case m of Inl e \<Rightarrow> Inl e | Inr a \<Rightarrow> f a)"

text \<open>A generator, or a loop that only collects items, and may raise.\<close>

fun concat_err :: "('a \<Rightarrow> pyerror + 'b list) \<Rightarrow> 'a list \<Rightarrow> pyerror + 'b list" where
  "concat_err f [] = Inr []"
| "concat_err f (a # as) =
     (case f a of
        Inl e \<Rightarrow> Inl e
      | Inr bs \<Rightarrow> (case concat_err f as of Inl e \<Rightarrow> Inl e | Inr cs \<Rightarrow> Inr (bs @ cs)))"

text \<open>\<open>x.get(key, 0)\<close>.\<close>

definition x_get :: "(xkey \<times> var) list \<Rightarrow> xkey \<Rightarrow> summand" where
  "x_get x key = (case map_of x key of None \<Rightarrow> Const 0 | Some v \<Rightarrow> Term 1 v)"

text \<open>Line 138: \<open>x[(l, c, r, d, p, t)] = model.NewBoolVar(...)\<close>.\<close>

definition store_x :: "xkey \<Rightarrow> cp_model \<times> (xkey \<times> var) list \<Rightarrow> cp_model \<times> (xkey \<times> var) list" where
  "store_x key mx =
     (let vm = new_bool_var (XName key) (fst mx)
      in (snd vm, AList.update key (fst vm) (snd mx)))"

text \<open>Lines 132-138.\<close>

definition create_x ::
  "catalogue \<Rightarrow> cp_model \<times> (xkey \<times> var) list \<Rightarrow> pyerror + cp_model \<times> (xkey \<times> var) list" where
  "create_x st =
     fold_err (\<lambda>l mx. bind_err (dict_get (programme st) l) (\<lambda>cs.
       fold_err (\<lambda>c.
         fold_err (\<lambda>r.
           fold_err (\<lambda>d.
             fold_err (\<lambda>p mx. bind_err (dict_get (course_teachers st) c) (\<lambda>ts.
               fold_err (\<lambda>t mx. Inr (store_x (l, c, r, d, p, t) mx)) ts mx))
             P)
           D)
         (R st))
       cs mx))
     (L st)"

text \<open>The generator of lines 147-151 and of lines 168-172: the summands of one class and
  one course.\<close>

definition pair_sum ::
  "catalogue \<Rightarrow> (xkey \<times> var) list \<Rightarrow> string \<Rightarrow> string \<Rightarrow> pyerror + summand list" where
  "pair_sum st x l c =
     concat_err (\<lambda>r.
       concat_err (\<lambda>d.
         concat_err (\<lambda>p. bind_err (dict_get (course_teachers st) c) (\<lambda>ts.
           Inr (map (\<lambda>t. x_get x (l, c, r, d, p, t)) ts)))
         P)
       D)
     (R st)"

text \<open>Lines 144-151: \<open>y[(l, c)] = model.NewBoolVar(...)\<close>, then the constraint that
  links the new variable to \<open>x\<close>.\<close>

definition store_y ::
  "catalogue \<Rightarrow> (xkey \<times> var) list \<Rightarrow> string \<Rightarrow> string \<Rightarrow> cp_model \<times> (ykey \<times> var) list
     \<Rightarrow> pyerror + cp_model \<times> (ykey \<times> var) list" where
  "store_y st x l c my =
     (let vm = new_bool_var (YName (l, c)) (fst my);
          y = AList.update (l, c) (fst vm) (snd my)
      in bind_err (dict_get y (l, c)) (\<lambda>v.
         bind_err (pair_sum st x l c) (\<lambda>e.
           Inr ((snd vm)\<lparr>constraints := constraints (snd vm) @ [LinEq v e]\<rparr>, y))))"

text \<open>Lines 142-151.\<close>

definition create_y ::
  "catalogue \<Rightarrow> (xkey \<times> var) list \<Rightarrow> cp_model \<times> (ykey \<times> var) list
     \<Rightarrow> pyerror + cp_model \<times> (ykey \<times> var) list" where
  "create_y st x =
     fold_err (\<lambda>l my. bind_err (dict_get (programme st) l) (\<lambda>cs.
       fold_err (\<lambda>c. store_y st x l c) cs my))
     (L st)"

text \<open>The loops of lines 156-193 only call \<open>model.Add\<close>. Each of the four functions below
  is the list of the constraints that one of them adds, in the order of the calls.\<close>

text \<open>Constraint 1, lines 156-163.\<close>

definition class_conflicts :: "catalogue \<Rightarrow> (xkey \<times> var) list \<Rightarrow> pyerror + constr list" where
  "class_conflicts st x =
     concat_err (\<lambda>l.
       concat_err (\<lambda>d.
         concat_err (\<lambda>p.
           bind_err
             (bind_err (dict_get (programme st) l) (\<lambda>cs.
                concat_err (\<lambda>c.
                  concat_err (\<lambda>r. bind_err (dict_get (course_teachers st) c) (\<lambda>ts.
                    Inr (map (\<lambda>t. x_get x (l, c, r, d, p, t)) ts)))
                  (R st))
                cs))
             (\<lambda>e. Inr [LinLe e 1]))
         P)
       D)
     (L st)"

text \<open>Constraint 2, lines 166-173.\<close>

definition course_once :: "catalogue \<Rightarrow> (xkey \<times> var) list \<Rightarrow> pyerror + constr list" where
  "course_once st x =
     concat_err (\<lambda>l. bind_err (dict_get (programme st) l) (\<lambda>cs.
       concat_err (\<lambda>c. bind_err (pair_sum st x l c) (\<lambda>e. Inr [LinLe e 1])) cs))
     (L st)"

text \<open>Constraint 3, lines 176-183.\<close>

definition teacher_conflicts :: "catalogue \<Rightarrow> (xkey \<times> var) list \<Rightarrow> pyerror + constr list" where
  "teacher_conflicts st x =
     concat_err (\<lambda>t.
       concat_err (\<lambda>d.
         concat_err (\<lambda>p.
           bind_err
             (concat_err (\<lambda>l. bind_err (dict_get (programme st) l) (\<lambda>cs.
                concat_err (\<lambda>c. bind_err (dict_get (course_teachers st) c) (\<lambda>ts.
                  if t \<in> set ts then Inr (map (\<lambda>r. x_get x (l, c, r, d, p, t)) (R st))
                  else Inr []))
                cs))
              (L st))
             (\<lambda>e. Inr [LinLe e 1]))
         P)
       D)
     (T st)"

text \<open>Constraint 4, lines 186-193.\<close>

definition room_conflicts :: "catalogue \<Rightarrow> (xkey \<times> var) list \<Rightarrow> pyerror + constr list" where
  "room_conflicts st x =
     concat_err (\<lambda>r.
       concat_err (\<lambda>d.
         concat_err (\<lambda>p.
           bind_err
             (concat_err (\<lambda>l. bind_err (dict_get (programme st) l) (\<lambda>cs.
                concat_err (\<lambda>c. bind_err (dict_get (course_teachers st) c) (\<lambda>ts.
                  Inr (map (\<lambda>t. x_get x (l, c, r, d, p, t)) ts)))
                cs))
              (L st))
             (\<lambda>e. Inr [LinLe e 1]))
         P)
       D)
     (R st)"

text \<open>Lines 199-203: the list \<open>objective_terms\<close> after the first loop. The term
  \<open>1000 * y[(l, c)] + credit_bonus * y[(l, c)]\<close> has two summands.\<close>

definition objective_y :: "catalogue \<Rightarrow> (ykey \<times> var) list \<Rightarrow> pyerror + summand list" where
  "objective_y st y =
     concat_err (\<lambda>l. bind_err (dict_get (programme st) l) (\<lambda>cs.
       concat_err (\<lambda>c.
         let credit_bonus = (case map_of (course_credits st) c of None \<Rightarrow> 0 | Some v \<Rightarrow> v) in
         bind_err (dict_get y (l, c)) (\<lambda>v. Inr [Term 1000 v, Term credit_bonus v]))
       cs))
     (L st)"

text \<open>Lines 206-213: what the second loop appends to \<open>objective_terms\<close>.\<close>

definition objective_x :: "catalogue \<Rightarrow> (xkey \<times> var) list \<Rightarrow> pyerror + summand list" where
  "objective_x st x =
     concat_err (\<lambda>l. bind_err (dict_get (programme st) l) (\<lambda>cs.
       concat_err (\<lambda>c.
         concat_err (\<lambda>r.
           concat_err (\<lambda>d.
             concat_err (\<lambda>p. bind_err (dict_get (course_teachers st) c) (\<lambda>ts.
               concat_err (\<lambda>t.
                 case map_of x (l, c, r, d, p, t) of
                   None \<Rightarrow> Inr []
                 | Some v \<Rightarrow> bind_err (dict_get weights p) (\<lambda>w. Inr [Term w v]))
               ts))
             P)
           D)
         (R st))
       cs))
     (L st)"

text \<open>The model handed to the solver, with the dictionaries \<open>x\<close> and \<open>y\<close>.\<close>

definition build_model ::
  "catalogue \<Rightarrow> pyerror + (xkey \<times> var) list \<times> (ykey \<times> var) list \<times> cp_model" where
  "build_model st =
     bind_err (create_x st (empty_model, [])) (\<lambda>mx.
     bind_err (create_y st (snd mx) (fst mx, [])) (\<lambda>my.
     bind_err (class_conflicts st (snd mx)) (\<lambda>c1.
     bind_err (course_once st (snd mx)) (\<lambda>c2.
     bind_err (teacher_conflicts st (snd mx)) (\<lambda>c3.
     bind_err (room_conflicts st (snd mx)) (\<lambda>c4.
     bind_err (objective_y st (snd my)) (\<lambda>o1.
     bind_err (objective_x st (snd mx)) (\<lambda>o2.
       Inr (snd mx, snd my,
            (fst my)\<lparr>constraints := constraints (fst my) @ c1 @ c2 @ c3 @ c4,
                      objective := o1 @ o2\<rparr>)))))))))"

section \<open>The solver, the timetable and the diagnosis: lines 217-319\<close>

text \<open>
  The solver is OR-Tools, outside the program. A solver is any function from the model to
  a status and a value for every variable; the program reads the value with
  \<open>solver.Value\<close>.
\<close>

datatype status = UNKNOWN | MODEL_INVALID | FEASIBLE | INFEASIBLE | OPTIMAL

type_synonym solver = "cp_model \<Rightarrow> status \<times> (var \<Rightarrow> int)"

text \<open>\<open>timetable[l][d][p]\<close> is \<open>None\<close> or a triple \<open>(c, t, r)\<close>. The three nested
  dictionaries are read by key only.\<close>

type_synonym cell = "(string \<times> string \<times> string) option"

type_synonym timetable = "string \<rightharpoonup> (int \<rightharpoonup> (int \<rightharpoonup> cell))"

text \<open>
  \<open>display_timetable\<close>, \<open>generate_pdf\<close> and the report of the courses that are not
  scheduled (lines 252-277) read the timetable, print, and write a PDF file with ReportLab.
  They do not change the timetable. Whether they raise depends on the file system, so
  they are a function from the timetable to the error they raise, if any.
\<close>

type_synonym reporter = "timetable \<Rightarrow> pyerror option"

text \<open>Lines 234-240.\<close>

definition init_timetable :: "catalogue \<Rightarrow> timetable" where
  "init_timetable st =
     fold (\<lambda>l tt. tt(l \<mapsto> fold (\<lambda>d days. days(d \<mapsto> fold (\<lambda>p row. row(p \<mapsto> None)) P Map.empty))
                            D Map.empty))
       (L st) Map.empty"

text \<open>\<open>timetable[l][d][p] = v\<close>: the two outer subscripts are reads.\<close>

definition set_cell :: "timetable \<Rightarrow> string \<Rightarrow> int \<Rightarrow> int \<Rightarrow> cell \<Rightarrow> pyerror + timetable" where
  "set_cell tt l d p v =
     (case tt l of
        None \<Rightarrow> Inl KeyError
      | Some days \<Rightarrow>
         (case days d of
            None \<Rightarrow> Inl KeyError
          | Some row \<Rightarrow> Inr (tt(l \<mapsto> days(d \<mapsto> row(p \<mapsto> v))))))"

text \<open>The body of the innermost loop, lines 249-250.\<close>

definition fill_cell ::
  "(xkey \<times> var) list \<Rightarrow> (var \<Rightarrow> int) \<Rightarrow> xkey \<Rightarrow> timetable \<Rightarrow> pyerror + timetable" where
  "fill_cell x val key tt =
     (case key of (l, c, r, d, p, t) \<Rightarrow>
        (case map_of x key of
           None \<Rightarrow> Inr tt
         | Some v \<Rightarrow> if val v = 1 then set_cell tt l d p (Some (c, t, r)) else Inr tt))"

text \<open>Lines 243-250.\<close>

definition fill_timetable ::
  "catalogue \<Rightarrow> (xkey \<times> var) list \<Rightarrow> (var \<Rightarrow> int) \<Rightarrow> timetable \<Rightarrow> pyerror + timetable" where
  "fill_timetable st x val =
     fold_err (\<lambda>l tt. bind_err (dict_get (programme st) l) (\<lambda>cs.
       fold_err (\<lambda>c.
         fold_err (\<lambda>r.
           fold_err (\<lambda>d.
             fold_err (\<lambda>p tt. bind_err (dict_get (course_teachers st) c) (\<lambda>ts.
               fold_err (\<lambda>t. fill_cell x val (l, c, r, d, p, t)) ts tt))
             P)
           D)
         (R st))
       cs tt))
     (L st)"

text \<open>\<open>analyze_problem\<close> prints; a printed line is a value of \<open>report_line\<close>.\<close>

datatype report_line =
    Title
  | WithoutTeacher nat
  | WithoutTeacherCourse string
  | DistributionTitle
  | ClassCount string nat
  | CapacityProblem nat nat
  | SuggestionsTitle
  | Suggestion nat
  | DuplicateCodes

definition analyze_problem :: "catalogue \<Rightarrow> pyerror + report_line list" where
  "analyze_problem st =
     bind_err
       (concat_err (\<lambda>c. bind_err (dict_get (course_teachers st) c) (\<lambda>ts.
          Inr (if ts = [] then [c] else []))) (C st))
       (\<lambda>courses_without_teacher.
     bind_err
       (concat_err (\<lambda>l. bind_err (dict_get (programme st) l) (\<lambda>cs.
          Inr [ClassCount l (length cs)])) (L st))
       (\<lambda>distribution.
     let total_courses = sum_list (map (\<lambda>kv. length (snd kv)) (programme st));
         total_slots = length D * length P * length (R st);
         unique_courses = set (C st)
     in Inr
       ([Title]
        @ (if courses_without_teacher \<noteq> []
           then WithoutTeacher (length courses_without_teacher)
                  # map WithoutTeacherCourse courses_without_teacher
           else [])
        @ [DistributionTitle] @ distribution
        @ (if total_courses > total_slots
           then [CapacityProblem total_courses total_slots, SuggestionsTitle,
                 Suggestion 1, Suggestion 2, Suggestion 3, Suggestion 4]
           else [])
        @ (if card unique_courses \<noteq> length (C st) then [DuplicateCodes] else []))))"

text \<open>
  \<open>generate_timetable\<close>: the model, the solver, and then either the timetable with its
  reports or the diagnosis.
\<close>

definition generate_timetable ::
  "solver \<Rightarrow> reporter \<Rightarrow> catalogue \<Rightarrow> pyerror + timetable option" where
  "generate_timetable solve report st =
     bind_err (build_model st) (\<lambda>xym.
       let x = fst xym; sv = solve (snd (snd xym)); status = fst sv in
       if status = OPTIMAL \<or> status = FEASIBLE
       then bind_err (fill_timetable st x (snd sv) (init_timetable st)) (\<lambda>tt.
              case report tt of Some e \<Rightarrow> Inl e | None \<Rightarrow> Inr (Some tt))
       else bind_err (analyze_problem st) (\<lambda>diagnosis. Inr None))"

section \<open>What a run of \<open>extract_data\<close> has read\<close>

text \<open>
  The functions of this section are not in the program. They name what its loops visit,
  so that the state after the loops can be related to the input: the course descriptors
  in the order the loops meet them, the cleaned code of a descriptor, and the non-blank
  lecturer names of one of its two lecturer fields.
\<close>

definition append_new :: "'a \<Rightarrow> 'a list \<Rightarrow> 'a list" where
  "append_new x xs = (if x \<in> set xs then xs else xs @ [x])"

definition nonblank :: "json list \<Rightarrow> string list" where
  "nonblank ls = filter (\<lambda>s. s \<noteq> []) (map clean_string ls)"

definition field_lecturers :: "string \<Rightarrow> (string \<times> json) list \<Rightarrow> string list" where
  "field_lecturers field subject =
     (case map_of subject field of
        None \<Rightarrow> []
      | Some v \<Rightarrow> (case py_iter v of Inl e \<Rightarrow> [] | Inr ls \<Rightarrow> nonblank ls))"

definition declared_lecturers :: "(string \<times> json) list \<Rightarrow> string list" where
  "declared_lecturers subject =
     field_lecturers ''Course Lecturer'' subject @ field_lecturers ''Assitant lecturer'' subject"

text \<open>The teacher list of a course after one descriptor, from the list before it.\<close>

definition merge_teachers :: "(string \<times> json) list \<Rightarrow> string list \<Rightarrow> string list" where
  "merge_teachers subject ts =
     (if declared_lecturers subject = [] then ts @ [default_teacher]
      else fold append_new (declared_lecturers subject) ts)"

fun descriptor_code :: "json \<Rightarrow> string" where
  "descriptor_code (JObj subject) =
     (case map_of subject ''code'' of None \<Rightarrow> [] | Some cv \<Rightarrow> clean_string cv)"
| "descriptor_code _ = []"

definition subjects_of_semester :: "json \<Rightarrow> json list" where
  "subjects_of_semester semester_data =
     (case py_getitem semester_data ''subjects'' of
        Inl e \<Rightarrow> []
      | Inr v \<Rightarrow> (case py_iter v of Inl e \<Rightarrow> [] | Inr subjects \<Rightarrow> subjects))"

definition subjects_of_level :: "json \<Rightarrow> json list" where
  "subjects_of_level level_data =
     (case py_items level_data of
        Inl e \<Rightarrow> []
      | Inr sems \<Rightarrow> concat (map (\<lambda>sem. subjects_of_semester (snd sem)) sems))"

definition all_subjects :: "json \<Rightarrow> json list" where
  "all_subjects subjects_data =
     (case py_getitem subjects_data ''niveau'' of
        Inl e \<Rightarrow> []
      | Inr nv \<Rightarrow>
         (case py_items nv of
            Inl e \<Rightarrow> []
          | Inr levels \<Rightarrow> concat (map (\<lambda>lev. subjects_of_level (snd lev)) levels)))"

text \<open>Two catalogues that differ at most in the teachers.\<close>

definition same_courses :: "catalogue \<Rightarrow> catalogue \<Rightarrow> bool" where
  "same_courses st st' \<longleftrightarrow>
     L st' = L st \<and> C st' = C st \<and> R st' = R st \<and> programme st' = programme st \<and>
     course_credits st' = course_credits st"

text \<open>
  What holds of the catalogue once the descriptors \<open>seen\<close> have been processed: the
  course list holds the non-blank codes met so far, once each; every course has a teacher;
  the credit of a course is the one of the first descriptor that carries its code; a
  descriptor without a lecturer has left the default teacher with its course; and every
  class has a programme made of known courses.
\<close>

definition catalogue_inv :: "catalogue \<Rightarrow> json list \<Rightarrow> bool" where
  "catalogue_inv st seen \<longleftrightarrow>
     set (C st) = set (filter (\<lambda>c. c \<noteq> []) (map descriptor_code seen))
   \<and> distinct (C st)
   \<and> (\<forall>c \<in> set (C st). \<exists>ts. map_of (course_teachers st) c = Some ts \<and> ts \<noteq> [])
   \<and> (\<forall>c \<in> set (C st). \<exists>subject.
         find (\<lambda>d. descriptor_code d = c) seen = Some (JObj subject)
       \<and> map_of (course_credits st) c = Some (credit_of subject))
   \<and> (\<forall>subject. JObj subject \<in> set seen \<and> descriptor_code (JObj subject) \<noteq> []
         \<and> declared_lecturers subject = [] \<longrightarrow>
         (\<exists>ts. map_of (course_teachers st) (descriptor_code (JObj subject)) = Some ts
             \<and> default_teacher \<in> set ts))
   \<and> (\<forall>l \<in> set (L st). \<exists>cs. map_of (programme st) l = Some cs \<and> set cs \<subseteq> set (C st))"

section \<open>Integer literals as Python documents them\<close>

text \<open>
  The definitions of this section are not taken from the program. They describe, without
  a parser, which strings \<open>int\<close> accepts in base 10 and what it returns: optional
  whitespace, an optional sign, a digit followed by further digits, each of which may be
  preceded by one underscore, and optional whitespace; at most 4300 digits. They also say
  what it means to truncate a float, and what the credit field of a descriptor converts
  to.
\<close>

definition is_digit :: "char \<Rightarrow> bool" where
  "is_digit c \<longleftrightarrow> c \<in> set ''0123456789''"

definition digit_of :: "char \<Rightarrow> int" where
  "digit_of c =
     (case map_of (zip ''0123456789'' [0, 1, 2, 3, 4, 5, 6, 7, 8, 9]) c of
        None \<Rightarrow> 0
      | Some v \<Rightarrow> v)"

inductive digit_tail :: "string \<Rightarrow> bool" where
  tail_end: "digit_tail []"
| tail_digit: "is_digit c \<Longrightarrow> digit_tail s \<Longrightarrow> digit_tail (c # s)"
| tail_underscore: "is_digit c \<Longrightarrow> digit_tail s \<Longrightarrow> digit_tail (CHR ''_'' # c # s)"

code_pred digit_tail .

definition decimal_value :: "string \<Rightarrow> int" where
  "decimal_value s = foldl (\<lambda>a c. 10 * a + digit_of c) 0 (filter is_digit s)"

definition literal_space :: "char \<Rightarrow> bool" where
  "literal_space c \<longleftrightarrow>
     c \<in> set [CHR 0x09, CHR 0x0A, CHR 0x0B, CHR 0x0C, CHR 0x0D, CHR 0x20, CHR 0x85, CHR 0xA0]"

definition int_literal :: "string \<Rightarrow> int \<Rightarrow> bool" where
  "int_literal s n \<longleftrightarrow>
     (\<exists>ws1 sg c b ws2.
        s = ws1 @ sg @ c # b @ ws2
      \<and> list_all literal_space ws1 \<and> list_all literal_space ws2
      \<and> (sg = [] \<or> sg = ''+'' \<or> sg = ''-'')
      \<and> is_digit c \<and> digit_tail b
      \<and> length (filter is_digit (c # b)) \<le> 4300
      \<and> n = (if sg = ''-'' then - decimal_value (c # b) else decimal_value (c # b)))"

text \<open>\<open>n\<close> is the float rounded towards zero.\<close>

fun float_trunc :: "pyfloat \<Rightarrow> int \<Rightarrow> bool" where
  "float_trunc (Finite m e) n \<longleftrightarrow>
     (if 0 \<le> e then n = m * 2 ^ nat e
      else \<bar>n\<bar> * 2 ^ nat (- e) \<le> \<bar>m\<bar> \<and> \<bar>m\<bar> < (\<bar>n\<bar> + 1) * 2 ^ nat (- e)
        \<and> (if 0 \<le> m then 0 \<le> n else n \<le> 0))"
| "float_trunc _ n \<longleftrightarrow> False"

text \<open>The credit that a descriptor declares: the integer that its \<open>credit\<close> field
  converts to, and 0 when the field is missing or does not convert.\<close>

definition converted_credit :: "(string \<times> json) list \<Rightarrow> int \<Rightarrow> bool" where
  "converted_credit subject n \<longleftrightarrow>
     (case map_of subject ''credit'' of
        None \<Rightarrow> n = 0
      | Some (JInt k) \<Rightarrow> n = k
      | Some (JBool b) \<Rightarrow> n = (if b then 1 else 0)
      | Some (JFloat f) \<Rightarrow> (if \<exists>k. float_trunc f k then float_trunc f n else n = 0)
      | Some (JStr s) \<Rightarrow> (if \<exists>k. int_literal s k then int_literal s n else n = 0)
      | Some _ \<Rightarrow> n = 0)"

section \<open>A small input\<close>

text \<open>
  One level with two semesters. \<open>INF111\<close> is declared twice, with lecturers and a credit of
  6 the first time, without lecturers and with a credit of 9 the second time. \<open>INF121\<close> is
  declared twice without lecturers; its first credit is not a number. One room has a blank
  label.
\<close>

definition sample_subjects :: json where
  "sample_subjects = JObj [(''niveau'', JObj [(''1'', JObj [
      (''s1'', JObj [(''subjects'', JArr [
         JObj [(''code'', JStr ''INF111''), (''credit'', JInt 6),
               (''Course Lecturer'', JArr [JStr ''Dr A '', JStr []]),
               (''Assitant lecturer'', JArr [JStr ''Mr B'', JStr ''Dr A''])],
         JObj [(''code'', JStr '' INF121''), (''credit'', JStr ''x'')]])]),
      (''s2'', JObj [(''subjects'', JArr [
         JObj [(''code'', JStr ''INF111''), (''credit'', JInt 9)],
         JObj [(''code'', JStr ''INF121'')]])])])])]"

definition sample_rooms :: json where
  "sample_rooms =
     JObj [(''Informatique'', JArr [JObj [(''num'', JStr ''A1'')], JObj [(''num'', JStr ''  '')]])]"

definition sample_catalogue :: catalogue where
  "sample_catalogue =
     \<lparr> L = [''Niveau 1-s1'', ''Niveau 1-s2''], C = [''INF111'', ''INF121''],
       R = [''A1''], T = [''Dr A'', ''Mr B'', ''ENSEIGNANT_DEFAUT''],
       programme =
         [(''Niveau 1-s1'', [''INF111'', ''INF121'']),
          (''Niveau 1-s2'', [''INF111'', ''INF121''])],
       course_teachers =
         [(''INF111'', [''Dr A'', ''Mr B'', ''ENSEIGNANT_DEFAUT'']),
          (''INF121'', [''ENSEIGNANT_DEFAUT'', ''ENSEIGNANT_DEFAUT''])],
       course_credits = [(''INF111'', 6), (''INF121'', 0)] \<rparr>"

text \<open>
  A second input: one class, one course with a credit of 6, a primary lecturer and an
  assistant, one room. The third input has the same subjects and lists the room twice.
\<close>

definition small_subjects :: json where
  "small_subjects = JObj [(''niveau'', JObj [(''1'', JObj [
      (''s1'', JObj [(''subjects'', JArr [
         JObj [(''code'', JStr ''INF111''), (''credit'', JInt 6),
               (''Course Lecturer'', JArr [JStr ''Dr A'']),
               (''Assitant lecturer'', JArr [JStr ''Mr B''])]])])])])]"

definition small_rooms :: json where
  "small_rooms = JObj [(''Informatique'', JArr [JObj [(''num'', JStr ''A1'')]])]"

definition small_catalogue :: catalogue where
  "small_catalogue =
     \<lparr> L = [''Niveau 1-s1''], C = [''INF111''], R = [''A1''], T = [''Dr A'', ''Mr B''],
       programme = [(''Niveau 1-s1'', [''INF111''])],
       course_teachers = [(''INF111'', [''Dr A'', ''Mr B''])],
       course_credits = [(''INF111'', 6)] \<rparr>"

definition twin_rooms :: json where
  "twin_rooms =
     JObj [(''Informatique'', JArr [JObj [(''num'', JStr ''A1'')], JObj [(''num'', JStr ''A1'')]])]"

definition twin_catalogue :: catalogue where
  "twin_catalogue =
     \<lparr> L = [''Niveau 1-s1''], C = [''INF111''], R = [''A1'', ''A1''], T = [''Dr A'', ''Mr B''],
       programme = [(''Niveau 1-s1'', [''INF111''])],
       course_teachers = [(''INF111'', [''Dr A'', ''Mr B''])],
       course_credits = [(''INF111'', 6)] \<rparr>"

text \<open>
  A fourth input, for the credits: \<open>INF111\<close> has the credit \<open>" +1_2 "\<close> and is declared
  again with the credit 9; the credit of \<open>INF121\<close> is the digit 7 after the separator
  U+001C; the credit of \<open>INF131\<close> is the float 2.75.
\<close>

definition credit_subjects :: json where
  "credit_subjects = JObj [(''niveau'', JObj [(''1'', JObj [
      (''s1'', JObj [(''subjects'', JArr [
         JObj [(''code'', JStr ''INF111''), (''credit'', JStr '' +1_2 '')],
         JObj [(''code'', JStr ''INF121''), (''credit'', JStr (CHR 0x1C # ''7''))],
         JObj [(''code'', JStr ''INF111''), (''credit'', JInt 9)],
         JObj [(''code'', JStr ''INF131''), (''credit'', JFloat (Finite 11 (- 2)))]])])])])]"

definition credit_catalogue :: catalogue where
  "credit_catalogue =
     \<lparr> L = [''Niveau 1-s1''], C = [''INF111'', ''INF121'', ''INF131''],
       R = [''A1''], T = [''ENSEIGNANT_DEFAUT''],
       programme = [(''Niveau 1-s1'', [''INF111'', ''INF121'', ''INF111'', ''INF131''])],
       course_teachers =
         [(''INF111'', [''ENSEIGNANT_DEFAUT'', ''ENSEIGNANT_DEFAUT'']),
          (''INF121'', [''ENSEIGNANT_DEFAUT'']),
          (''INF131'', [''ENSEIGNANT_DEFAUT''])],
       course_credits = [(''INF111'', 12), (''INF121'', 0), (''INF131'', 2)] \<rparr>"

section \<open>The loops of \<open>generate_timetable\<close> without their lookups\<close>

text \<open>
  After \<open>extract_data\<close> no subscript of \<open>generate_timetable\<close> raises. The functions below
  name what its loops then range over: the programme of a class, the teachers of a course,
  the keys of one class and one course in the order of lines 134-137, and the keys of all
  classes in the order of lines 132-137.
\<close>

definition prog :: "catalogue \<Rightarrow> string \<Rightarrow> string list" where
  "prog st l = (case map_of (programme st) l of None \<Rightarrow> [] | Some cs \<Rightarrow> cs)"

definition teachers :: "catalogue \<Rightarrow> string \<Rightarrow> string list" where
  "teachers st c = (case map_of (course_teachers st) c of None \<Rightarrow> [] | Some ts \<Rightarrow> ts)"

definition credit :: "catalogue \<Rightarrow> string \<Rightarrow> int" where
  "credit st c = (case map_of (course_credits st) c of None \<Rightarrow> 0 | Some v \<Rightarrow> v)"

definition weight :: "int \<Rightarrow> int" where
  "weight p = (case map_of weights p of None \<Rightarrow> 0 | Some w \<Rightarrow> w)"

definition pair_keys :: "catalogue \<Rightarrow> string \<Rightarrow> string \<Rightarrow> xkey list" where
  "pair_keys st l c = [(l, c, r, d, p, t). r \<leftarrow> R st, d \<leftarrow> D, p \<leftarrow> P, t \<leftarrow> teachers st c]"

definition pairs :: "catalogue \<Rightarrow> ykey list" where
  "pairs st = [(l, c). l \<leftarrow> L st, c \<leftarrow> prog st l]"

definition all_keys :: "catalogue \<Rightarrow> xkey list" where
  "all_keys st = concat (map (\<lambda>l. concat (map (\<lambda>c. pair_keys st l c) (prog st l))) (L st))"

definition lookups_ok :: "catalogue \<Rightarrow> bool" where
  "lookups_ok st \<longleftrightarrow>
     (\<forall>l \<in> set (L st). \<exists>cs. map_of (programme st) l = Some cs
        \<and> (\<forall>c \<in> set cs. \<exists>ts. map_of (course_teachers st) c = Some ts))"

text \<open>The variable that a dictionary holds under a key, and its value.\<close>

definition var_at :: "('k \<times> var) list \<Rightarrow> 'k \<Rightarrow> var" where
  "var_at d k = (case map_of d k of None \<Rightarrow> 0 | Some v \<Rightarrow> v)"

text \<open>Every variable of a dictionary is a variable of the model, created with the name
  of its key.\<close>

definition holds_names :: "('k \<Rightarrow> varname) \<Rightarrow> cp_model \<Rightarrow> ('k \<times> var) list \<Rightarrow> bool" where
  "holds_names name m d \<longleftrightarrow>
     (\<forall>k v. map_of d k = Some v \<longrightarrow> v < length (variables m) \<and> variables m ! v = name k)"

text \<open>The dictionaries \<open>x\<close> and \<open>y\<close> after lines 132-151, and the variable and the
  constraint that line 144 and lines 147-151 add for one pair.\<close>

definition x_dict :: "catalogue \<Rightarrow> (xkey \<times> var) list" where
  "x_dict st = snd (fold store_x (all_keys st) (empty_model, []))"

definition link_y ::
  "catalogue \<Rightarrow> (xkey \<times> var) list \<Rightarrow> ykey \<Rightarrow> cp_model \<times> (ykey \<times> var) list
     \<Rightarrow> cp_model \<times> (ykey \<times> var) list" where
  "link_y st x lc my =
     (let v = length (variables (fst my))
      in ((fst my)\<lparr>variables := variables (fst my) @ [YName lc],
                      constraints := constraints (fst my)
                        @ [LinEq v (map (x_get x) (pair_keys st (fst lc) (snd lc)))]\<rparr>,
          AList.update lc v (snd my)))"

definition y_dict :: "catalogue \<Rightarrow> (ykey \<times> var) list" where
  "y_dict st =
     snd (fold (link_y st (x_dict st)) (pairs st)
            (fst (fold store_x (all_keys st) (empty_model, [])), []))"

definition period :: "xkey \<Rightarrow> int" where
  "period key = (case key of (l, c, r, d, p, t) \<Rightarrow> p)"

text \<open>The value of a linear expression and the truth of a constraint, given the values
  of the variables.\<close>

fun summand_value :: "(var \<Rightarrow> int) \<Rightarrow> summand \<Rightarrow> int" where
  "summand_value val (Term a v) = a * val v"
| "summand_value val (Const n) = n"

definition eval_sum :: "(var \<Rightarrow> int) \<Rightarrow> summand list \<Rightarrow> int" where
  "eval_sum val e = sum_list (map (summand_value val) e)"

fun satisfies :: "(var \<Rightarrow> int) \<Rightarrow> constr \<Rightarrow> bool" where
  "satisfies val (LinLe e b) \<longleftrightarrow> eval_sum val e \<le> b"
| "satisfies val (LinEq v e) \<longleftrightarrow> val v = eval_sum val e"


section \<open>Trimming and skipped records\<close>

lemma last_dropWhile_eq: "dropWhile Q xs \<noteq> [] \<Longrightarrow> last (dropWhile Q xs) = last xs"
  by (induction xs) (auto split: if_splits)

lemma strip_decompose:
  "\<exists>pre post. s = pre @ strip s @ post \<and> (\<forall>c \<in> set pre \<union> set post. is_space c)"
proof -
  let ?t = "dropWhile is_space s"
  let ?u = "dropWhile is_space (rev ?t)"
  have a: "s = takeWhile is_space s @ ?t" by simp
  have "rev ?u @ rev (takeWhile is_space (rev ?t)) = rev (takeWhile is_space (rev ?t) @ ?u)"
    by (simp only: rev_append)
  also have "\<dots> = rev (rev ?t)" by (simp only: takeWhile_dropWhile_id)
  finally have b: "?t = rev ?u @ rev (takeWhile is_space (rev ?t))" by simp
  have c: "\<forall>c \<in> set (takeWhile is_space s). is_space c"
    by (auto dest: set_takeWhileD)
  have d: "\<forall>c \<in> set (rev (takeWhile is_space (rev ?t))). is_space c"
    by (auto dest: set_takeWhileD)
  have "s = takeWhile is_space s @ strip s @ rev (takeWhile is_space (rev ?t))"
    using a b by (simp add: strip_def) 
  with c d show ?thesis by blast
qed

lemma strip_ends:
  assumes "strip s \<noteq> []"
  shows "\<not> is_space (hd (strip s)) \<and> \<not> is_space (last (strip s))"
proof -
  let ?t = "dropWhile is_space s"
  let ?u = "dropWhile is_space (rev ?t)"
  from assms have u: "?u \<noteq> []" by (simp add: strip_def)
  then have t: "?t \<noteq> []" by (metis dropWhile.simps(1) rev.simps(1))
  have "hd (strip s) = last ?u" using u by (simp add: strip_def hd_rev)
  also have "\<dots> = last (rev ?t)" using u by (rule last_dropWhile_eq)
  also have "\<dots> = hd ?t" using t by (simp add: last_rev)
  finally have h: "hd (strip s) = hd ?t" .
  have "\<not> is_space (hd ?t)" using t by (rule hd_dropWhile)
  moreover have "last (strip s) = hd ?u" using u by (simp add: strip_def last_rev)
  moreover have "\<not> is_space (hd ?u)" using u by (rule hd_dropWhile)
  ultimately show ?thesis using h by simp
qed

lemma strip_blank_iff: "strip s = [] \<longleftrightarrow> (\<forall>c \<in> set s. is_space c)"
proof
  assume e: "strip s = []"
  have "dropWhile is_space s = []"
  proof (rule ccontr)
    assume n: "dropWhile is_space s \<noteq> []"
    then have "\<not> is_space (hd (dropWhile is_space s))" by (rule hd_dropWhile)
    moreover have "hd (dropWhile is_space s) \<in> set (rev (dropWhile is_space s))"
      using n by simp
    moreover have "\<forall>c \<in> set (rev (dropWhile is_space s)). is_space c"
      using e unfolding strip_def by (simp only: rev_is_Nil_conv dropWhile_eq_Nil_conv)
    ultimately show False by blast
  qed
  then show "\<forall>c \<in> set s. is_space c" by (simp only: dropWhile_eq_Nil_conv)
next
  assume "\<forall>c \<in> set s. is_space c"
  then have h: "dropWhile is_space s = []" by (simp only: dropWhile_eq_Nil_conv)
  show "strip s = []" by (simp only: strip_def h rev.simps dropWhile.simps)
qed

lemma fold_err_append:
  "fold_err f (xs @ ys) s = (case fold_err f xs s of Inl e \<Rightarrow> Inl e | Inr s' \<Rightarrow> fold_err f ys s')"
  by (induction xs arbitrary: s) (auto split: sum.splits)

lemma fold_err_skip:
  assumes "\<And>s. f x s = Inr s"
  shows "fold_err f (xs @ x # ys) s = fold_err f (xs @ ys) s"
  by (simp add: fold_err_append assms split: sum.splits)

lemma clean_string_blank:
  "(\<forall>s. cv = JStr s \<longrightarrow> strip s = []) \<Longrightarrow> clean_string cv = []"
  by (cases cv) auto

lemma process_subject_blank:
  assumes "clean_string cv = []" "map_of subject ''code'' = Some cv"
  shows "process_subject cn (JObj subject) st = Inr st"
  using assms by (simp add: dict_get_def)

lemma process_room_blank:
  assumes "clean_string cv = []" "map_of room ''num'' = Some cv"
  shows "process_room (JObj room) st = Inr st"
  using assms by (simp add: process_room_def dict_get_def)


section \<open>\<open>int\<close> on strings and floats\<close>

lemma digit_char_cases:
  assumes "48 \<le> (of_char c :: nat)" "(of_char c :: nat) \<le> 57"
  shows "c \<in> set ''0123456789''"
proof -
  from assms have "(of_char c :: nat) = 48 \<or> (of_char c :: nat) = 49 \<or> (of_char c :: nat) = 50
     \<or> (of_char c :: nat) = 51 \<or> (of_char c :: nat) = 52 \<or> (of_char c :: nat) = 53
     \<or> (of_char c :: nat) = 54 \<or> (of_char c :: nat) = 55 \<or> (of_char c :: nat) = 56
     \<or> (of_char c :: nat) = 57" by arith
  then have "(of_char c :: nat) = of_char CHR ''0'' \<or> (of_char c :: nat) = of_char CHR ''1''
     \<or> (of_char c :: nat) = of_char CHR ''2'' \<or> (of_char c :: nat) = of_char CHR ''3''
     \<or> (of_char c :: nat) = of_char CHR ''4'' \<or> (of_char c :: nat) = of_char CHR ''5''
     \<or> (of_char c :: nat) = of_char CHR ''6'' \<or> (of_char c :: nat) = of_char CHR ''7''
     \<or> (of_char c :: nat) = of_char CHR ''8'' \<or> (of_char c :: nat) = of_char CHR ''9''"
    by simp
  then have "c = CHR ''0'' \<or> c = CHR ''1'' \<or> c = CHR ''2'' \<or> c = CHR ''3'' \<or> c = CHR ''4''
     \<or> c = CHR ''5'' \<or> c = CHR ''6'' \<or> c = CHR ''7'' \<or> c = CHR ''8'' \<or> c = CHR ''9''"
    by (simp only: of_char_eq_iff)
  then show ?thesis by auto
qed

lemma digit_val_iff: "digit_val c = Some v \<longleftrightarrow> is_digit c \<and> v = digit_of c"
proof (cases "48 \<le> (of_char c :: nat) \<and> (of_char c :: nat) \<le> 57")
  case True
  then have m: "c \<in> set ''0123456789''" using digit_char_cases by blast
  then have "digit_of c = int (of_char c) - 48"
    by (auto simp: digit_of_def)
  with True m show ?thesis by (auto simp: digit_val_def is_digit_def Let_def)
next
  case False
  then have n: "c \<notin> set ''0123456789''" by auto
  from False have "digit_val c = None" by (auto simp: digit_val_def Let_def)
  with n show ?thesis by (simp add: is_digit_def)
qed

lemma digit_val_None: "digit_val c = None \<longleftrightarrow> \<not> is_digit c"
  using digit_val_iff [of c] by (cases "digit_val c") auto

lemma underscore_not_digit: "\<not> is_digit CHR ''_''"
  by (simp add: is_digit_def)

lemma digits_value_iff:
  "digits_value acc s = Some n \<longleftrightarrow>
     digit_tail s \<and> n = foldl (\<lambda>a c. 10 * a + digit_of c) acc (filter is_digit s)"
proof (induction acc s arbitrary: n rule: digits_value.induct)
  case (1 acc)
  show ?case by (auto intro: digit_tail.intros)
next
  case (2 acc c)
  show ?case
  proof (cases "is_digit c")
    case True
    then have "digit_val c = Some (digit_of c)" by (simp add: digit_val_iff)
    with True show ?thesis by (auto intro: digit_tail.intros)
  next
    case False
    then have "digit_val c = None" by (simp add: digit_val_None)
    moreover have "\<not> digit_tail [c]" using False by (auto elim: digit_tail.cases)
    ultimately show ?thesis by simp
  qed
next
  case (3 acc c d ds)
  show ?case
  proof (cases "c = CHR ''_''")
    case u: True
    show ?thesis
    proof (cases "is_digit d")
      case True
      then have dv: "digit_val d = Some (digit_of d)" by (simp add: digit_val_iff)
      have t: "digit_tail (c # d # ds) \<longleftrightarrow> digit_tail ds"
        using u True underscore_not_digit
        by (auto elim: digit_tail.cases intro: digit_tail.intros)
      from "3.IH"(1) [OF u dv] t u True dv underscore_not_digit show ?thesis by simp
    next
      case False
      then have "digit_val d = None" by (simp add: digit_val_None)
      moreover have "\<not> digit_tail (c # d # ds)"
        using u False underscore_not_digit by (auto elim: digit_tail.cases)
      ultimately show ?thesis using u by simp
    qed
  next
    case nu: False
    show ?thesis
    proof (cases "is_digit c")
      case True
      then have dv: "digit_val c = Some (digit_of c)" by (simp add: digit_val_iff)
      have t: "digit_tail (c # d # ds) \<longleftrightarrow> digit_tail (d # ds)"
        using nu True by (auto elim: digit_tail.cases intro: digit_tail.intros)
      from "3.IH"(2) [OF nu dv] t nu True dv show ?thesis by simp
    next
      case False
      then have "digit_val c = None" by (simp add: digit_val_None)
      moreover have "\<not> digit_tail (c # d # ds)"
        using nu False by (auto elim: digit_tail.cases)
      ultimately show ?thesis using nu by simp
    qed
  qed
qed


lemma trim_decompose:
  "\<exists>pre post. s = pre @ rev (dropWhile Q (rev (dropWhile Q s))) @ post
     \<and> list_all Q pre \<and> list_all Q post"
proof -
  let ?t = "dropWhile Q s"
  let ?u = "dropWhile Q (rev ?t)"
  have a: "s = takeWhile Q s @ ?t" by simp
  have "rev ?u @ rev (takeWhile Q (rev ?t)) = rev (takeWhile Q (rev ?t) @ ?u)"
    by (simp only: rev_append)
  also have "\<dots> = rev (rev ?t)" by (simp only: takeWhile_dropWhile_id)
  finally have b: "?t = rev ?u @ rev (takeWhile Q (rev ?t))" by simp
  have c: "list_all Q (takeWhile Q s)"
    by (auto simp: list_all_iff dest: set_takeWhileD)
  have d: "list_all Q (rev (takeWhile Q (rev ?t)))"
    by (auto simp: list_all_iff dest: set_takeWhileD)
  have "s = takeWhile Q s @ rev ?u @ rev (takeWhile Q (rev ?t))"
    using a b by simp
  with c d show ?thesis by blast
qed

lemma trim_unique:
  assumes s: "s = pre @ t @ post" and pre: "list_all Q pre" and post: "list_all Q post"
    and t: "t \<noteq> []" and h: "\<not> Q (hd t)" and l: "\<not> Q (last t)"
  shows "rev (dropWhile Q (rev (dropWhile Q s))) = t"
proof -
  from t obtain a t' where ta: "t = a # t'" by (cases t) auto
  with h have na: "\<not> Q a" by simp
  have "dropWhile Q s = dropWhile Q (t @ post)"
    unfolding s using pre by (intro dropWhile_append2) (simp add: list_all_iff)
  also have "\<dots> = t @ post" using ta na by simp
  finally have d1: "dropWhile Q s = t @ post" .
  from t have rt: "rev t \<noteq> []" by simp
  then obtain b u where rb: "rev t = b # u" by (cases "rev t") auto
  have "b = hd (rev t)" using rb by simp
  also have "\<dots> = last t" using t by (simp add: hd_rev)
  finally have nb: "\<not> Q b" using l by simp
  have "dropWhile Q (rev (t @ post)) = dropWhile Q (rev post @ rev t)" by simp
  also have "\<dots> = dropWhile Q (rev t)"
    using post by (intro dropWhile_append2) (simp add: list_all_iff)
  also have "\<dots> = rev t" using rb nb by simp
  finally show ?thesis using d1 by simp
qed

lemma literal_space_iff: "literal_space c \<longleftrightarrow> is_int_space c"
proof
  assume "literal_space c"
  then show "is_int_space c"
    by (auto simp: literal_space_def is_int_space_def)
next
  assume "is_int_space c"
  then have "(of_char c :: nat) = of_char (CHR 0x09) \<or> (of_char c :: nat) = of_char (CHR 0x0A)
     \<or> (of_char c :: nat) = of_char (CHR 0x0B) \<or> (of_char c :: nat) = of_char (CHR 0x0C)
     \<or> (of_char c :: nat) = of_char (CHR 0x0D) \<or> (of_char c :: nat) = of_char (CHR 0x20)
     \<or> (of_char c :: nat) = of_char (CHR 0x85) \<or> (of_char c :: nat) = of_char (CHR 0xA0)"
    by (auto simp: is_int_space_def)
  then have "c = CHR 0x09 \<or> c = CHR 0x0A \<or> c = CHR 0x0B \<or> c = CHR 0x0C \<or> c = CHR 0x0D
     \<or> c = CHR 0x20 \<or> c = CHR 0x85 \<or> c = CHR 0xA0"
    by (simp only: of_char_eq_iff)
  then show "literal_space c" by (auto simp: literal_space_def)
qed

lemma digit_not_space: "is_digit c \<Longrightarrow> \<not> is_int_space c"
  by (auto simp: is_digit_def is_int_space_def)

lemma digit_not_sign: "is_digit c \<Longrightarrow> c \<noteq> CHR ''-'' \<and> c \<noteq> CHR ''+''"
  by (auto simp: is_digit_def)

lemma digit_tail_last: "digit_tail b \<Longrightarrow> b \<noteq> [] \<Longrightarrow> is_digit (last b)"
  by (induction rule: digit_tail.induct) auto

lemma digit_string_last: "is_digit c \<Longrightarrow> digit_tail b \<Longrightarrow> is_digit (last (c # b))"
  using digit_tail_last [of b] by (cases "b = []") auto


lemma filter_digit_val: "filter (\<lambda>x. digit_val x \<noteq> None) xs = filter is_digit xs"
  by (simp add: digit_val_None)

lemma int_of_str_body:
  assumes t: "int_strip s = sg @ c # b"
    and sg: "sg = [] \<or> sg = ''+'' \<or> sg = ''-''"
    and c: "is_digit c"
  shows "int_of_str s =
     (if digit_tail b \<and> length (filter is_digit (c # b)) \<le> 4300
      then Inr (if sg = ''-'' then - decimal_value (c # b) else decimal_value (c # b))
      else Inl ValueError)"
proof -
  from c have ns: "c \<noteq> CHR ''-''" "c \<noteq> CHR ''+''" using digit_not_sign by auto
  have body: "(if int_strip s \<noteq> [] \<and> (hd (int_strip s) = CHR ''-'' \<or> hd (int_strip s) = CHR ''+'')
         then tl (int_strip s) else int_strip s) = c # b"
    using sg ns by (auto simp: t)
  have neg: "(int_strip s \<noteq> [] \<and> hd (int_strip s) = CHR ''-'') \<longleftrightarrow> sg = ''-''"
    using sg ns by (auto simp: t)
  have dv: "digit_val c = Some (digit_of c)" using c by (simp add: digit_val_iff)
  have val: "foldl (\<lambda>a c. 10 * a + digit_of c) (digit_of c) (filter is_digit b)
               = decimal_value (c # b)"
    using c by (simp add: decimal_value_def)
  show ?thesis
  proof (cases "digits_value (digit_of c) b")
    case None
    then have "\<not> digit_tail b" using digits_value_iff [of "digit_of c" b] by auto
    with None show ?thesis
      unfolding int_of_str_def Let_def body neg by (simp add: dv)
  next
    case (Some n)
    then have dt: "digit_tail b" and n: "n = decimal_value (c # b)"
      using digits_value_iff [of "digit_of c" b n] val by auto
    show ?thesis
      unfolding int_of_str_def Let_def body neg filter_digit_val
      using Some dt n c by (simp add: dv max_str_digits_def)
  qed
qed

lemma int_of_str_literal: "int_of_str s = Inr n \<longleftrightarrow> int_literal s n"
proof
  assume r: "int_of_str s = Inr n"
  define t where "t = int_strip s"
  define sg where "sg = (if t \<noteq> [] \<and> (hd t = CHR ''-'' \<or> hd t = CHR ''+'') then [hd t] else [])"
  define body where "body = (if t \<noteq> [] \<and> (hd t = CHR ''-'' \<or> hd t = CHR ''+'') then tl t else t)"
  from r obtain c b where body: "body = c # b" and dc: "digit_val c \<noteq> None"
    unfolding int_of_str_def Let_def body_def t_def
    by (auto split: list.splits option.splits)
  from dc have c: "is_digit c" by (simp add: digit_val_None)
  have t: "t = sg @ c # b"
    using body unfolding body_def sg_def by (cases t) (auto split: if_splits)
  have sg: "sg = [] \<or> sg = ''+'' \<or> sg = ''-''" unfolding sg_def by auto
  from int_of_str_body [OF t [unfolded t_def] sg c] r have
    dt: "digit_tail b" and len: "length (filter is_digit (c # b)) \<le> 4300"
    and n: "n = (if sg = ''-'' then - decimal_value (c # b) else decimal_value (c # b))"
    by (auto split: if_splits)
  from trim_decompose [of s is_int_space] obtain pre post where
    s: "s = pre @ t @ post" and pre: "list_all is_int_space pre"
    and post: "list_all is_int_space post"
    unfolding int_strip_def t_def by blast
  have "s = pre @ sg @ c # b @ post" using s unfolding t by simp
  moreover have "list_all literal_space pre" "list_all literal_space post"
    using pre post by (simp_all add: list_all_iff literal_space_iff)
  ultimately show "int_literal s n"
    unfolding int_literal_def using sg c dt len n by blast
next
  assume "int_literal s n"
  then obtain ws1 sg c b ws2 where
    s: "s = ws1 @ sg @ c # b @ ws2"
    and w1: "list_all literal_space ws1" and w2: "list_all literal_space ws2"
    and sg: "sg = [] \<or> sg = ''+'' \<or> sg = ''-''"
    and c: "is_digit c" and dt: "digit_tail b"
    and len: "length (filter is_digit (c # b)) \<le> 4300"
    and n: "n = (if sg = ''-'' then - decimal_value (c # b) else decimal_value (c # b))"
    unfolding int_literal_def by blast
  let ?t = "sg @ c # b"
  have s': "s = ws1 @ ?t @ ws2" using s by simp
  have i1: "list_all is_int_space ws1" and i2: "list_all is_int_space ws2"
    using w1 w2 by (simp_all add: list_all_iff literal_space_iff)
  have ne: "?t \<noteq> []" by simp
  have h: "\<not> is_int_space (hd ?t)"
    using sg digit_not_space [OF c] by (auto simp: is_int_space_def)
  have "last ?t = last (c # b)" by simp
  then have l: "\<not> is_int_space (last ?t)"
    using digit_not_space [OF digit_string_last [OF c dt]] by simp
  have t: "int_strip s = ?t"
    unfolding int_strip_def by (rule trim_unique [OF s' i1 i2 ne h l])
  from int_of_str_body [OF t sg c] dt len n show "int_of_str s = Inr n" by simp
qed

lemma int_of_str_error: "int_of_str s = Inl e \<Longrightarrow> e = ValueError"
  unfolding int_of_str_def Let_def by (auto split: list.splits option.splits if_splits)

lemma trunc_div_iff:
  fixes m n d :: int
  assumes d: "0 < d"
  shows "n = sgn m * (\<bar>m\<bar> div d) \<longleftrightarrow>
     \<bar>n\<bar> * d \<le> \<bar>m\<bar> \<and> \<bar>m\<bar> < (\<bar>n\<bar> + 1) * d \<and> (if 0 \<le> m then 0 \<le> n else n \<le> 0)"
proof
  assume n: "n = sgn m * (\<bar>m\<bar> div d)"
  let ?q = "\<bar>m\<bar> div d"
  have q0: "0 \<le> ?q" using d by (simp add: pos_imp_zdiv_nonneg_iff)
  have an: "\<bar>n\<bar> = ?q"
  proof (cases "m = 0")
    case True
    then show ?thesis using n by simp
  next
    case False
    then have "\<bar>sgn m\<bar> = 1" by (simp add: abs_sgn_eq)
    then show ?thesis using n q0 by (simp add: abs_mult)
  qed
  have e: "\<bar>m\<bar> = ?q * d + \<bar>m\<bar> mod d" by simp
  have r0: "0 \<le> \<bar>m\<bar> mod d" and r1: "\<bar>m\<bar> mod d < d" using d by simp_all
  have lo: "?q * d \<le> \<bar>m\<bar>" using e r0 by linarith
  have "(?q + 1) * d = ?q * d + d" by (simp add: algebra_simps)
  then have hi: "\<bar>m\<bar> < (?q + 1) * d" using e r1 by linarith
  have sg: "if 0 \<le> m then 0 \<le> n else n \<le> 0"
    using n q0 by (auto simp: sgn_if mult_le_0_iff)
  from an lo hi sg show "\<bar>n\<bar> * d \<le> \<bar>m\<bar> \<and> \<bar>m\<bar> < (\<bar>n\<bar> + 1) * d \<and> (if 0 \<le> m then 0 \<le> n else n \<le> 0)"
    by simp
next
  assume a: "\<bar>n\<bar> * d \<le> \<bar>m\<bar> \<and> \<bar>m\<bar> < (\<bar>n\<bar> + 1) * d \<and> (if 0 \<le> m then 0 \<le> n else n \<le> 0)"
  have "\<bar>m\<bar> = d * \<bar>n\<bar> + (\<bar>m\<bar> - d * \<bar>n\<bar>)" by simp
  moreover have "0 \<le> \<bar>m\<bar> - d * \<bar>n\<bar>" using a by (simp add: mult.commute)
  moreover have "\<bar>m\<bar> - d * \<bar>n\<bar> < d" using a by (simp add: algebra_simps)
  ultimately have q: "\<bar>m\<bar> div d = \<bar>n\<bar>" by (rule int_div_pos_eq)
  show "n = sgn m * (\<bar>m\<bar> div d)"
  proof (cases "m = 0")
    case True
    with q have "\<bar>n\<bar> = 0" by simp
    then show ?thesis using True by simp
  next
    case False
    then show ?thesis using a q by (auto simp: sgn_if split: if_splits)
  qed
qed

lemma int_of_float_trunc: "int_of_float f = Inr n \<longleftrightarrow> float_trunc f n"
proof (cases f)
  case (Finite m e)
  show ?thesis
  proof (cases "0 \<le> e")
    case True
    then show ?thesis unfolding Finite by auto
  next
    case False
    have d: "(0::int) < 2 ^ nat (- e)" by simp
    have "int_of_float f = Inr n \<longleftrightarrow> n = sgn m * (\<bar>m\<bar> div 2 ^ nat (- e))"
      unfolding Finite using False by auto
    also have "\<dots> \<longleftrightarrow> float_trunc f n"
      unfolding Finite using False trunc_div_iff [OF d, of n m] by simp
    finally show ?thesis .
  qed
next
  case PosInf
  then show ?thesis by simp
next
  case NegInf
  then show ?thesis by simp
next
  case NaN
  then show ?thesis by simp
qed

lemma credit_of_converted: "converted_credit subject n \<longleftrightarrow> n = credit_of subject"
proof (cases "map_of subject ''credit''")
  case None
  then show ?thesis by (simp add: converted_credit_def credit_of_def)
next
  case (Some v)
  show ?thesis
  proof (cases v)
    case JNull
    with Some show ?thesis by (simp add: converted_credit_def credit_of_def)
  next
    case (JBool b)
    with Some show ?thesis by (simp add: converted_credit_def credit_of_def)
  next
    case (JInt k)
    with Some show ?thesis by (simp add: converted_credit_def credit_of_def)
  next
    case (JFloat f)
    show ?thesis
    proof (cases "int_of_float f")
      case (Inl e)
      have "\<not> (\<exists>k. float_trunc f k)"
        unfolding int_of_float_trunc [symmetric] Inl by simp
      with Inl Some JFloat show ?thesis by (auto simp: converted_credit_def credit_of_def)
    next
      case (Inr k)
      have "\<And>j. float_trunc f j \<longleftrightarrow> j = k"
        unfolding int_of_float_trunc [symmetric] Inr by auto
      with Inr Some JFloat show ?thesis by (auto simp: converted_credit_def credit_of_def)
    qed
  next
    case (JStr s)
    show ?thesis
    proof (cases "int_of_str s")
      case (Inl e)
      have "\<not> (\<exists>k. int_literal s k)"
        unfolding int_of_str_literal [symmetric] Inl by simp
      with Inl Some JStr show ?thesis by (auto simp: converted_credit_def credit_of_def)
    next
      case (Inr k)
      have "\<And>j. int_literal s j \<longleftrightarrow> j = k"
        unfolding int_of_str_literal [symmetric] Inr by auto
      with Inr Some JStr show ?thesis by (auto simp: converted_credit_def credit_of_def)
    qed
  next
    case (JArr xs)
    with Some show ?thesis by (simp add: converted_credit_def credit_of_def)
  next
    case (JObj kvs)
    with Some show ?thesis by (simp add: converted_credit_def credit_of_def)
  qed
qed

section \<open>The effect of one course descriptor\<close>

lemma same_courses_refl: "same_courses st st"
  by (simp add: same_courses_def)

lemma same_courses_trans: "same_courses a b \<Longrightarrow> same_courses b c \<Longrightarrow> same_courses a c"
  by (simp add: same_courses_def)

lemma add_lecturer_effect:
  assumes "map_of (course_teachers st) code = Some ts"
  shows "\<exists>st'. add_lecturer code lv (st, f) = Inr (st', f \<or> clean_string lv \<noteq> [])
      \<and> map_of (course_teachers st') code
          = Some (if clean_string lv = [] then ts else append_new (clean_string lv) ts)
      \<and> (\<forall>c. c \<noteq> code \<longrightarrow> map_of (course_teachers st') c = map_of (course_teachers st) c)
      \<and> same_courses st st'
      \<and> T st' = (if clean_string lv = [] then T st else append_new (clean_string lv) (T st))"
  using assms
  by (simp add: add_lecturer_def dict_get_def Let_def append_new_def same_courses_def
      update_conv')

lemma fold_add_lecturer:
  assumes "map_of (course_teachers st) code = Some ts"
  shows "\<exists>st'. fold_err (add_lecturer code) ls (st, f) = Inr (st', f \<or> nonblank ls \<noteq> [])
      \<and> map_of (course_teachers st') code = Some (fold append_new (nonblank ls) ts)
      \<and> (\<forall>c. c \<noteq> code \<longrightarrow> map_of (course_teachers st') c = map_of (course_teachers st) c)
      \<and> same_courses st st'
      \<and> T st' = fold append_new (nonblank ls) (T st)"
  using assms
proof (induction ls arbitrary: st f ts)
  case Nil
  then show ?case by (simp add: nonblank_def same_courses_refl)
next
  case (Cons lv ls)
  from add_lecturer_effect [OF Cons.prems, of lv f] obtain st1 where
    a: "add_lecturer code lv (st, f) = Inr (st1, f \<or> clean_string lv \<noteq> [])"
    and b: "map_of (course_teachers st1) code
          = Some (if clean_string lv = [] then ts else append_new (clean_string lv) ts)"
    and c: "\<forall>c. c \<noteq> code \<longrightarrow> map_of (course_teachers st1) c = map_of (course_teachers st) c"
    and d: "same_courses st st1"
    and e: "T st1 = (if clean_string lv = [] then T st else append_new (clean_string lv) (T st))"
    by blast
  from Cons.IH [OF b, of "f \<or> clean_string lv \<noteq> []"] obtain st2 where
    a2: "fold_err (add_lecturer code) ls (st1, f \<or> clean_string lv \<noteq> [])
           = Inr (st2, (f \<or> clean_string lv \<noteq> []) \<or> nonblank ls \<noteq> [])"
    and b2: "map_of (course_teachers st2) code
          = Some (fold append_new (nonblank ls)
               (if clean_string lv = [] then ts else append_new (clean_string lv) ts))"
    and c2: "\<forall>c. c \<noteq> code \<longrightarrow> map_of (course_teachers st2) c = map_of (course_teachers st1) c"
    and d2: "same_courses st1 st2"
    and e2: "T st2 = fold append_new (nonblank ls) (T st1)"
    by blast
  have n: "nonblank (lv # ls) = (if clean_string lv = [] then nonblank ls else clean_string lv # nonblank ls)"
    by (simp add: nonblank_def)
  have "fold_err (add_lecturer code) (lv # ls) (st, f) = Inr (st2, f \<or> nonblank (lv # ls) \<noteq> [])"
    using a a2 n by auto
  moreover have "map_of (course_teachers st2) code = Some (fold append_new (nonblank (lv # ls)) ts)"
    using b2 n by simp
  moreover have "\<forall>c. c \<noteq> code \<longrightarrow> map_of (course_teachers st2) c = map_of (course_teachers st) c"
    using c c2 by simp
  moreover have "same_courses st st2" using d d2 by (rule same_courses_trans)
  moreover have "T st2 = fold append_new (nonblank (lv # ls)) (T st)"
    using e e2 n by simp
  ultimately show ?case by blast
qed


lemma read_lecturers_effect:
  assumes run: "read_lecturers field subject code (st, f) = Inr (st', f')"
    and ts: "map_of (course_teachers st) code = Some ts"
  shows "map_of (course_teachers st') code = Some (fold append_new (field_lecturers field subject) ts)
      \<and> (\<forall>c. c \<noteq> code \<longrightarrow> map_of (course_teachers st') c = map_of (course_teachers st) c)
      \<and> same_courses st st'
      \<and> f' = (f \<or> field_lecturers field subject \<noteq> [])
      \<and> T st' = fold append_new (field_lecturers field subject) (T st)"
proof (cases "map_of subject field")
  case None
  with run ts show ?thesis
    by (simp add: read_lecturers_def field_lecturers_def same_courses_refl)
next
  case (Some v)
  show ?thesis
  proof (cases "py_iter v")
    case (Inl e)
    with run Some show ?thesis by (simp add: read_lecturers_def)
  next
    case (Inr ls)
    from fold_add_lecturer [OF ts, of ls f] obtain st2 where
      a: "fold_err (add_lecturer code) ls (st, f) = Inr (st2, f \<or> nonblank ls \<noteq> [])"
      and b: "map_of (course_teachers st2) code = Some (fold append_new (nonblank ls) ts)"
      and c: "\<forall>c. c \<noteq> code \<longrightarrow> map_of (course_teachers st2) c = map_of (course_teachers st) c"
      and d: "same_courses st st2"
      and e: "T st2 = fold append_new (nonblank ls) (T st)"
      by blast
    have fl: "field_lecturers field subject = nonblank ls"
      using Some Inr by (simp add: field_lecturers_def)
    have "st' = st2 \<and> f' = (f \<or> nonblank ls \<noteq> [])"
      using run Some Inr a by (simp add: read_lecturers_def)
    with b c d e fl show ?thesis by simp
  qed
qed

lemma add_default_effect:
  assumes "map_of (course_teachers st) code = Some ts"
  shows "\<exists>st'. add_default code (st, f) = Inr st'
      \<and> map_of (course_teachers st') code = Some (if f then ts else ts @ [default_teacher])
      \<and> (\<forall>c. c \<noteq> code \<longrightarrow> map_of (course_teachers st') c = map_of (course_teachers st) c)
      \<and> same_courses st st'
      \<and> T st' = (if f then T st else append_new default_teacher (T st))"
  using assms
  by (simp add: add_default_def dict_get_def Let_def append_new_def same_courses_def
      update_conv')

lemma register_course_teachers:
  "map_of (course_teachers (register_course code subject st)) c
     = (if c = code \<and> code \<notin> set (C st) then Some [] else map_of (course_teachers st) c)"
  by (simp add: register_course_def update_conv')

lemma register_course_frame:
  "L (register_course code subject st) = L st \<and> R (register_course code subject st) = R st
   \<and> T (register_course code subject st) = T st
   \<and> programme (register_course code subject st) = programme st
   \<and> C (register_course code subject st) = append_new code (C st)"
  by (simp add: register_course_def append_new_def)

lemma register_course_credits:
  "map_of (course_credits (register_course code subject st)) c
     = (if c = code \<and> code \<notin> set (C st) then Some (credit_of subject)
        else map_of (course_credits st) c)"
  by (simp add: register_course_def update_conv')

lemma merge_teachers_fold:
  "merge_teachers subject ts =
     (let ts2 = fold append_new (field_lecturers ''Assitant lecturer'' subject)
                 (fold append_new (field_lecturers ''Course Lecturer'' subject) ts)
      in if (False \<or> field_lecturers ''Course Lecturer'' subject \<noteq> [])
            \<or> field_lecturers ''Assitant lecturer'' subject \<noteq> [] then ts2
         else ts2 @ [default_teacher])"
  by (auto simp: merge_teachers_def declared_lecturers_def Let_def)

lemma process_subject_effect:
  assumes run: "process_subject cn (JObj subject) st = Inr st'"
    and cv: "map_of subject ''code'' = Some cv"
    and nb: "clean_string cv \<noteq> []"
    and ts0: "map_of (course_teachers (register_course (clean_string cv) subject st))
                (clean_string cv) = Some ts0"
  shows "\<exists>cs.
       map_of (programme st) cn = Some cs
     \<and> programme st' = AList.update cn (cs @ [clean_string cv]) (programme st)
     \<and> L st' = L st \<and> R st' = R st
     \<and> C st' = append_new (clean_string cv) (C st)
     \<and> course_credits st' = course_credits (register_course (clean_string cv) subject st)
     \<and> map_of (course_teachers st') (clean_string cv) = Some (merge_teachers subject ts0)
     \<and> (\<forall>c. c \<noteq> clean_string cv \<longrightarrow>
            map_of (course_teachers st') c = map_of (course_teachers st) c)"
proof -
  let ?code = "clean_string cv"
  let ?st1 = "register_course ?code subject st"
  note rf = register_course_frame [of ?code subject st]
  from run cv nb obtain cs where cs: "map_of (programme st) cn = Some cs"
    by (auto simp: dict_get_def Let_def rf split: option.splits)
  let ?st2 = "?st1\<lparr>programme := AList.update cn (cs @ [?code]) (programme ?st1)\<rparr>"
  from run cv nb cs obtain sf3 sf4 where
    r3: "read_lecturers ''Course Lecturer'' subject ?code (?st2, False) = Inr sf3"
    and r4: "read_lecturers ''Assitant lecturer'' subject ?code sf3 = Inr sf4"
    and r5: "add_default ?code sf4 = Inr st'"
    by (auto simp: dict_get_def Let_def rf split: sum.splits)
  obtain st3 f3 where sf3: "sf3 = (st3, f3)" by (cases sf3)
  obtain st4 f4 where sf4: "sf4 = (st4, f4)" by (cases sf4)
  let ?cl = "field_lecturers ''Course Lecturer'' subject"
  let ?al = "field_lecturers ''Assitant lecturer'' subject"
  have t2: "map_of (course_teachers ?st2) ?code = Some ts0" using ts0 by simp
  from read_lecturers_effect [OF r3 [unfolded sf3] t2] have
    a3: "map_of (course_teachers st3) ?code = Some (fold append_new ?cl ts0)"
    and b3: "\<forall>c. c \<noteq> ?code \<longrightarrow> map_of (course_teachers st3) c = map_of (course_teachers ?st2) c"
    and c3: "same_courses ?st2 st3"
    and d3: "f3 = (False \<or> ?cl \<noteq> [])"
    by blast+
  from read_lecturers_effect [OF r4 [unfolded sf3 sf4] a3] have
    a4: "map_of (course_teachers st4) ?code = Some (fold append_new ?al (fold append_new ?cl ts0))"
    and b4: "\<forall>c. c \<noteq> ?code \<longrightarrow> map_of (course_teachers st4) c = map_of (course_teachers st3) c"
    and c4: "same_courses st3 st4"
    and d4: "f4 = (f3 \<or> ?al \<noteq> [])"
    by blast+
  from add_default_effect [OF a4, of f4] r5 [unfolded sf4] have
    a5: "map_of (course_teachers st') ?code
          = Some (if f4 then fold append_new ?al (fold append_new ?cl ts0)
                  else fold append_new ?al (fold append_new ?cl ts0) @ [default_teacher])"
    and b5: "\<forall>c. c \<noteq> ?code \<longrightarrow> map_of (course_teachers st') c = map_of (course_teachers st4) c"
    and c5: "same_courses st4 st'"
    by auto
  have sc: "same_courses ?st2 st'"
    using c3 c4 c5 by (blast intro: same_courses_trans)
  have m: "map_of (course_teachers st') ?code = Some (merge_teachers subject ts0)"
    using a5 d3 d4 by (simp add: merge_teachers_fold Let_def)
  have o: "\<forall>c. c \<noteq> ?code \<longrightarrow> map_of (course_teachers st') c = map_of (course_teachers st) c"
    using b3 b4 b5 by (simp add: register_course_teachers)
  from sc have "programme st' = AList.update cn (cs @ [?code]) (programme st)"
    "L st' = L st" "R st' = R st" "C st' = append_new ?code (C st)"
    "course_credits st' = course_credits ?st1"
    by (simp_all add: same_courses_def rf)
  with cs m o show ?thesis by blast
qed

section \<open>The catalogue invariant\<close>

lemma fold_err_ghost:
  assumes step: "\<And>x s s' g. I s g \<Longrightarrow> f x s = Inr s' \<Longrightarrow> I s' (g @ h x)"
    and init: "I s g"
    and run: "fold_err f xs s = Inr s'"
  shows "I s' (g @ concat (map h xs))"
  using init run
proof (induction xs arbitrary: s g)
  case Nil
  then show ?case by simp
next
  case (Cons x xs)
  from Cons.prems(2) obtain s1 where a: "f x s = Inr s1" and b: "fold_err f xs s1 = Inr s'"
    by (auto split: sum.splits)
  from step [OF Cons.prems(1) a] have "I s1 (g @ h x)" .
  from Cons.IH [OF this b] show ?case by simp
qed

lemma find_append_eq:
  "find Q (xs @ ys) = (case find Q xs of None \<Rightarrow> find Q ys | Some x \<Rightarrow> Some x)"
  by (induction xs) auto

lemma set_fold_append_new: "set (fold append_new xs ts) = set ts \<union> set xs"
  by (induction xs arbitrary: ts) (auto simp: append_new_def)

lemma merge_teachers_grows: "set ts \<subseteq> set (merge_teachers subject ts)"
  by (auto simp: merge_teachers_def set_fold_append_new)

lemma merge_teachers_nonempty: "merge_teachers subject ts \<noteq> []"
proof (cases "declared_lecturers subject = []")
  case True
  then show ?thesis by (simp add: merge_teachers_def)
next
  case False
  then obtain x where "x \<in> set (declared_lecturers subject)" by (cases "declared_lecturers subject") auto
  then have "x \<in> set (merge_teachers subject ts)"
    using False by (simp add: merge_teachers_def set_fold_append_new)
  then show ?thesis by auto
qed

lemma merge_teachers_default:
  "declared_lecturers subject = [] \<Longrightarrow> default_teacher \<in> set (merge_teachers subject ts)"
  by (simp add: merge_teachers_def)

lemma seen_code_known:
  assumes "set cs = set (filter (\<lambda>c. c \<noteq> []) (map descriptor_code seen))"
    and "x \<in> set seen" and "descriptor_code x \<noteq> []"
  shows "descriptor_code x \<in> set cs"
  using assms by auto

lemma process_subject_inv:
  assumes inv: "catalogue_inv st seen"
    and run: "process_subject cn d st = Inr st'"
  shows "catalogue_inv st' (seen @ [d])"
proof -
  from run obtain subject where d: "d = JObj subject" by (cases d) auto
  from run d obtain cv where cv: "map_of subject ''code'' = Some cv"
    by (auto simp: dict_get_def split: option.splits)
  have dc: "descriptor_code d = clean_string cv" using d cv by simp
  from inv have
    i1: "set (C st) = set (filter (\<lambda>c. c \<noteq> []) (map descriptor_code seen))"
    and i2: "distinct (C st)"
    and i3: "\<forall>c \<in> set (C st). \<exists>ts. map_of (course_teachers st) c = Some ts \<and> ts \<noteq> []"
    and i4: "\<forall>c \<in> set (C st). \<exists>subject.
         find (\<lambda>d. descriptor_code d = c) seen = Some (JObj subject)
       \<and> map_of (course_credits st) c = Some (credit_of subject)"
    and i5: "\<forall>subject. JObj subject \<in> set seen \<and> descriptor_code (JObj subject) \<noteq> []
         \<and> declared_lecturers subject = [] \<longrightarrow>
         (\<exists>ts. map_of (course_teachers st) (descriptor_code (JObj subject)) = Some ts
             \<and> default_teacher \<in> set ts)"
    and i6: "\<forall>l \<in> set (L st). \<exists>cs. map_of (programme st) l = Some cs \<and> set cs \<subseteq> set (C st)"
    unfolding catalogue_inv_def by blast+
  show ?thesis
  proof (cases "clean_string cv = []")
    case True
    with run d cv have same: "st' = st" by (simp add: dict_get_def)
    have j1: "set (C st) = set (filter (\<lambda>c. c \<noteq> []) (map descriptor_code (seen @ [d])))"
      using i1 dc True by simp
    have j4: "\<forall>c \<in> set (C st). \<exists>subject.
         find (\<lambda>d. descriptor_code d = c) (seen @ [d]) = Some (JObj subject)
       \<and> map_of (course_credits st) c = Some (credit_of subject)"
      using i4 by (auto simp: find_append_eq)
    have j5: "\<forall>subject. JObj subject \<in> set (seen @ [d]) \<and> descriptor_code (JObj subject) \<noteq> []
         \<and> declared_lecturers subject = [] \<longrightarrow>
         (\<exists>ts. map_of (course_teachers st) (descriptor_code (JObj subject)) = Some ts
             \<and> default_teacher \<in> set ts)"
      using i5 dc True d by auto
    show ?thesis unfolding catalogue_inv_def same
      using j1 i2 i3 j4 j5 i6 by blast
  next
    case False
    let ?code = "clean_string cv"
    let ?st1 = "register_course ?code subject st"
    have "\<exists>ts0. map_of (course_teachers ?st1) ?code = Some ts0
             \<and> (?code \<in> set (C st) \<longrightarrow> map_of (course_teachers st) ?code = Some ts0)"
      using i3 by (auto simp: register_course_teachers)
    then obtain ts0 where ts0: "map_of (course_teachers ?st1) ?code = Some ts0"
      and old: "?code \<in> set (C st) \<longrightarrow> map_of (course_teachers st) ?code = Some ts0"
      by blast
    from process_subject_effect [OF run [unfolded d] cv False ts0] obtain cs where
      e1: "map_of (programme st) cn = Some cs"
      and e2: "programme st' = AList.update cn (cs @ [?code]) (programme st)"
      and e3: "L st' = L st"
      and e5: "C st' = append_new ?code (C st)"
      and e6: "course_credits st' = course_credits ?st1"
      and e7: "map_of (course_teachers st') ?code = Some (merge_teachers subject ts0)"
      and e8: "\<forall>c. c \<noteq> ?code \<longrightarrow> map_of (course_teachers st') c = map_of (course_teachers st) c"
      by blast
    have cs': "set (C st') = insert ?code (set (C st))"
      by (auto simp: e5 append_new_def)
    have j1: "set (C st') = set (filter (\<lambda>c. c \<noteq> []) (map descriptor_code (seen @ [d])))"
      using i1 dc False cs' by auto
    have j2: "distinct (C st')" using i2 by (simp add: e5 append_new_def)
    have j3: "\<forall>c \<in> set (C st'). \<exists>ts. map_of (course_teachers st') c = Some ts \<and> ts \<noteq> []"
    proof
      fix c assume c: "c \<in> set (C st')"
      show "\<exists>ts. map_of (course_teachers st') c = Some ts \<and> ts \<noteq> []"
      proof (cases "c = ?code")
        case True
        then show ?thesis using e7 merge_teachers_nonempty by simp
      next
        case False
        with c cs' have "c \<in> set (C st)" by simp
        with i3 e8 False show ?thesis by simp
      qed
    qed
    have j4: "\<forall>c \<in> set (C st'). \<exists>subject.
         find (\<lambda>d. descriptor_code d = c) (seen @ [d]) = Some (JObj subject)
       \<and> map_of (course_credits st') c = Some (credit_of subject)"
    proof
      fix c assume c: "c \<in> set (C st')"
      show "\<exists>subject. find (\<lambda>d. descriptor_code d = c) (seen @ [d]) = Some (JObj subject)
              \<and> map_of (course_credits st') c = Some (credit_of subject)"
      proof (cases "c \<in> set (C st)")
        case True
        with i4 obtain sb where
          f: "find (\<lambda>d. descriptor_code d = c) seen = Some (JObj sb)"
          and cr: "map_of (course_credits st) c = Some (credit_of sb)" by blast
        from True have "map_of (course_credits st') c = map_of (course_credits st) c"
          by (auto simp: e6 register_course_credits)
        with f cr show ?thesis by (simp add: find_append_eq)
      next
        case False
        with c cs' have ceq: "c = ?code" by simp
        from False i1 have "c \<notin> set (filter (\<lambda>c. c \<noteq> []) (map descriptor_code seen))" by simp
        with ceq \<open>clean_string cv \<noteq> []\<close> have "\<forall>x \<in> set seen. descriptor_code x \<noteq> c"
          by (auto simp: image_iff)
        then have "find (\<lambda>d. descriptor_code d = c) seen = None"
          by (simp add: find_None_iff)
        then have f: "find (\<lambda>d. descriptor_code d = c) (seen @ [d]) = Some (JObj subject)"
          using ceq dc d by (simp add: find_append_eq)
        have "map_of (course_credits st') c = Some (credit_of subject)"
          using False ceq by (simp add: e6 register_course_credits)
        with f show ?thesis by blast
      qed
    qed
    have j5: "\<forall>sb. JObj sb \<in> set (seen @ [d]) \<and> descriptor_code (JObj sb) \<noteq> []
         \<and> declared_lecturers sb = [] \<longrightarrow>
         (\<exists>ts. map_of (course_teachers st') (descriptor_code (JObj sb)) = Some ts
             \<and> default_teacher \<in> set ts)"
    proof (intro allI impI)
      fix sb
      assume a: "JObj sb \<in> set (seen @ [d]) \<and> descriptor_code (JObj sb) \<noteq> []
         \<and> declared_lecturers sb = []"
      show "\<exists>ts. map_of (course_teachers st') (descriptor_code (JObj sb)) = Some ts
             \<and> default_teacher \<in> set ts"
      proof (cases "descriptor_code (JObj sb) = ?code")
        case True
        show ?thesis
        proof (cases "JObj sb \<in> set seen")
          case True
          with a i5 obtain ts where
            t: "map_of (course_teachers st) (descriptor_code (JObj sb)) = Some ts"
            and dt: "default_teacher \<in> set ts" by blast
          from True a have "descriptor_code (JObj sb) \<in> set (C st)"
            by (intro seen_code_known [OF i1]) blast+
          with old t \<open>descriptor_code (JObj sb) = ?code\<close> have "ts0 = ts" by simp
          with dt merge_teachers_grows [of ts0 subject]
          have "default_teacher \<in> set (merge_teachers subject ts0)" by blast
          with e7 \<open>descriptor_code (JObj sb) = ?code\<close> show ?thesis by simp
        next
          case False
          with a d have "sb = subject" by simp
          with a e7 True merge_teachers_default [of subject ts0] show ?thesis by simp
        qed
      next
        case False
        with a d dc have "JObj sb \<in> set seen" by auto
        with a i5 e8 False show ?thesis by simp
      qed
    qed
    have j6: "\<forall>l \<in> set (L st'). \<exists>cs. map_of (programme st') l = Some cs \<and> set cs \<subseteq> set (C st')"
    proof
      fix l assume "l \<in> set (L st')"
      then have l: "l \<in> set (L st)" by (simp add: e3)
      show "\<exists>cs. map_of (programme st') l = Some cs \<and> set cs \<subseteq> set (C st')"
      proof (cases "l = cn")
        case True
        from i6 l True obtain cs0 where "map_of (programme st) cn = Some cs0"
          and "set cs0 \<subseteq> set (C st)" by blast
        with e1 have "set cs \<subseteq> set (C st)" by simp
        then show ?thesis using True cs' by (auto simp: e2 update_conv')
      next
        case False
        from i6 l obtain cs0 where "map_of (programme st) l = Some cs0"
          and "set cs0 \<subseteq> set (C st)" by blast
        with False show ?thesis using cs' by (auto simp: e2 update_conv')
      qed
    qed
    show ?thesis unfolding catalogue_inv_def
      using j1 j2 j3 j4 j5 j6 by blast
  qed
qed

section \<open>The invariant after \<open>extract_data\<close>\<close>

lemma catalogue_inv_init: "catalogue_inv init_catalogue []"
  by (simp add: catalogue_inv_def init_catalogue_def)

lemma catalogue_inv_new_class:
  assumes "catalogue_inv st seen"
  shows "catalogue_inv (st\<lparr>L := L st @ [cn], programme := AList.update cn [] (programme st)\<rparr>) seen"
proof -
  let ?st1 = "st\<lparr>L := L st @ [cn], programme := AList.update cn [] (programme st)\<rparr>"
  from assms have
    i6: "\<forall>l \<in> set (L st). \<exists>cs. map_of (programme st) l = Some cs \<and> set cs \<subseteq> set (C st)"
    unfolding catalogue_inv_def by blast
  have j6: "\<forall>l \<in> set (L ?st1). \<exists>cs. map_of (programme ?st1) l = Some cs \<and> set cs \<subseteq> set (C ?st1)"
  proof
    fix l assume l: "l \<in> set (L ?st1)"
    show "\<exists>cs. map_of (programme ?st1) l = Some cs \<and> set cs \<subseteq> set (C ?st1)"
    proof (cases "l = cn")
      case True
      then show ?thesis by (simp add: update_conv')
    next
      case False
      with l have "l \<in> set (L st)" by simp
      with i6 obtain cs0 where "map_of (programme st) l = Some cs0"
        and "set cs0 \<subseteq> set (C st)" by blast
      with False show ?thesis by (simp add: update_conv')
    qed
  qed
  from assms j6 show ?thesis unfolding catalogue_inv_def by simp
qed

lemma process_semester_inv:
  assumes inv: "catalogue_inv st seen"
    and run: "process_semester level sem st = Inr st'"
  shows "catalogue_inv st' (seen @ subjects_of_semester (snd sem))"
proof -
  let ?cn = "''Niveau '' @ level @ ''-'' @ fst sem"
  let ?st1 = "st\<lparr>L := L st @ [?cn], programme := AList.update ?cn [] (programme st)\<rparr>"
  from run obtain v subjects where
    v: "py_getitem (snd sem) ''subjects'' = Inr v" and it: "py_iter v = Inr subjects"
    and f: "fold_err (process_subject ?cn) subjects ?st1 = Inr st'"
    by (auto simp: process_semester_def Let_def split: sum.splits)
  have s: "subjects_of_semester (snd sem) = subjects"
    using v it by (simp add: subjects_of_semester_def)
  have "catalogue_inv st' (seen @ concat (map (\<lambda>x. [x]) subjects))"
    by (rule fold_err_ghost [where I = catalogue_inv and f = "process_subject ?cn",
          OF process_subject_inv catalogue_inv_new_class [OF inv] f])
  then show ?thesis by (simp add: s)
qed

lemma process_level_inv:
  assumes inv: "catalogue_inv st seen"
    and run: "process_level lev st = Inr st'"
  shows "catalogue_inv st' (seen @ subjects_of_level (snd lev))"
proof -
  from run obtain sems where it: "py_items (snd lev) = Inr sems"
    and f: "fold_err (process_semester (fst lev)) sems st = Inr st'"
    by (auto simp: process_level_def split: sum.splits)
  have "catalogue_inv st' (seen @ concat (map (\<lambda>sem. subjects_of_semester (snd sem)) sems))"
    by (rule fold_err_ghost [where I = catalogue_inv and f = "process_semester (fst lev)",
          OF process_semester_inv inv f])
  then show ?thesis using it by (simp add: subjects_of_level_def)
qed

lemma extract_subjects_inv:
  assumes run: "extract_subjects subjects_data init_catalogue = Inr st'"
  shows "catalogue_inv st' (all_subjects subjects_data)"
proof -
  from run obtain nv levels where nv: "py_getitem subjects_data ''niveau'' = Inr nv"
    and it: "py_items nv = Inr levels"
    and f: "fold_err process_level levels init_catalogue = Inr st'"
    by (auto simp: extract_subjects_def split: sum.splits)
  have "catalogue_inv st' ([] @ concat (map (\<lambda>lev. subjects_of_level (snd lev)) levels))"
    by (rule fold_err_ghost [where I = catalogue_inv and f = process_level,
          OF process_level_inv catalogue_inv_init f])
  then show ?thesis using nv it by (simp add: all_subjects_def)
qed

lemma catalogue_inv_rooms: "catalogue_inv (st\<lparr>R := r\<rparr>) seen = catalogue_inv st seen"
  by (simp add: catalogue_inv_def)

lemma concat_map_Nil: "concat (map (\<lambda>r. []) xs) = []"
  by (induction xs) auto

lemma process_room_inv:
  assumes inv: "catalogue_inv st seen"
    and run: "process_room room st = Inr st'"
  shows "catalogue_inv st' (seen @ [])"
proof -
  from run obtain v where "st' = (if clean_string v \<noteq> [] then st\<lparr>R := R st @ [clean_string v]\<rparr> else st)"
    by (auto simp: process_room_def Let_def split: sum.splits)
  with inv show ?thesis by (simp add: catalogue_inv_rooms)
qed

lemma extract_rooms_inv:
  assumes inv: "catalogue_inv st seen"
    and run: "extract_rooms rooms_data st = Inr st'"
  shows "catalogue_inv st' seen"
proof -
  from run obtain rooms where f: "fold_err process_room rooms st = Inr st'"
    by (auto simp: extract_rooms_def split: sum.splits)
  have "catalogue_inv st' (seen @ concat (map (\<lambda>r. []) rooms))"
    by (rule fold_err_ghost [where I = catalogue_inv and f = process_room,
          OF process_room_inv inv f])
  then show ?thesis by (simp add: concat_map_Nil)
qed

lemma extract_data_inv:
  assumes "extract_data subjects_data rooms_data = Inr st"
  shows "catalogue_inv st (all_subjects subjects_data)"
proof -
  from assms obtain st1 where a: "extract_subjects subjects_data init_catalogue = Inr st1"
    and b: "extract_rooms rooms_data st1 = Inr st"
    by (auto simp: extract_data_def split: sum.splits)
  from extract_rooms_inv [OF extract_subjects_inv [OF a] b] show ?thesis .
qed

lemma sample_run: "extract_data sample_subjects sample_rooms = Inr sample_catalogue"
  by code_simp

lemma credit_run: "extract_data credit_subjects sample_rooms = Inr credit_catalogue"
  by code_simp

section \<open>The model that \<open>generate_timetable\<close> builds\<close>

lemma bind_err_simps [simp]: "bind_err (Inr a) f = f a" "bind_err (Inl e) f = Inl e"
  by (simp_all add: bind_err_def)

lemma concat_err_pure: "concat_err (\<lambda>a. Inr (g a)) as = Inr (concat (map g as))"
  by (induction as) auto

lemma concat_err_cong:
  "as = bs \<Longrightarrow> (\<And>a. a \<in> set bs \<Longrightarrow> f a = g a) \<Longrightarrow> concat_err f as = concat_err g bs"
  by (induction as arbitrary: bs) (auto split: sum.splits)

lemma fold_err_pure: "fold_err (\<lambda>a s. Inr (g a s)) as s = Inr (fold g as s)"
  by (induction as arbitrary: s) auto

lemma fold_err_cong:
  "as = bs \<Longrightarrow> (\<And>a s. a \<in> set bs \<Longrightarrow> f a s = g a s) \<Longrightarrow> fold_err f as s = fold_err g bs s"
  by (induction as arbitrary: bs s) (auto split: sum.splits)

lemma fold_concat_map: "fold f (concat (map h as)) = fold (\<lambda>a. fold f (h a)) as"
  by (induction as) auto

lemma lookups_prog:
  "lookups_ok st \<Longrightarrow> l \<in> set (L st) \<Longrightarrow> dict_get (programme st) l = Inr (prog st l)"
  by (auto simp: lookups_ok_def dict_get_def prog_def)

lemma lookups_teachers:
  "lookups_ok st \<Longrightarrow> l \<in> set (L st) \<Longrightarrow> c \<in> set (prog st l)
     \<Longrightarrow> dict_get (course_teachers st) c = Inr (teachers st c)"
  by (fastforce simp: lookups_ok_def dict_get_def prog_def teachers_def)

lemma fold_pair_keys:
  "fold f (pair_keys st l c) =
     fold (\<lambda>r. fold (\<lambda>d. fold (\<lambda>p. fold (\<lambda>t. f (l, c, r, d, p, t)) (teachers st c)) P) D) (R st)"
  by (simp add: pair_keys_def fold_concat_map fold_map comp_def)

lemma fold_all_keys:
  "fold f (all_keys st) =
     fold (\<lambda>l. fold (\<lambda>c. fold f (pair_keys st l c)) (prog st l)) (L st)"
  by (simp add: all_keys_def fold_concat_map)

lemma create_x_pure:
  assumes ok: "lookups_ok st"
  shows "create_x st mx = Inr (fold store_x (all_keys st) mx)"
proof -
  have "create_x st mx =
     fold_err (\<lambda>l mx. Inr (fold (\<lambda>c. fold store_x (pair_keys st l c)) (prog st l) mx)) (L st) mx"
    unfolding create_x_def
    by (intro fold_err_cong refl)
       (simp add: lookups_prog [OF ok] lookups_teachers [OF ok] fold_err_pure fold_pair_keys
          cong: fold_err_cong)
  then show ?thesis by (simp add: fold_err_pure fold_all_keys)
qed

lemma holds_names_empty: "holds_names name m []"
  by (simp add: holds_names_def)

lemma holds_names_extended:
  assumes "holds_names name m d" and "variables m' = variables m @ vs"
  shows "holds_names name m' d"
  unfolding holds_names_def
proof (intro allI impI)
  fix k v assume "map_of d k = Some v"
  with assms(1) have "v < length (variables m)" and "variables m ! v = name k"
    unfolding holds_names_def by blast+
  then show "v < length (variables m') \<and> variables m' ! v = name k"
    by (simp add: assms(2) nth_append)
qed

lemma holds_names_inj:
  assumes "holds_names name m d" and "inj name"
    and "map_of d k = Some v" and "map_of d k' = Some v"
  shows "k = k'"
proof -
  from assms(1,3) have "variables m ! v = name k" unfolding holds_names_def by blast
  moreover from assms(1,4) have "variables m ! v = name k'" unfolding holds_names_def by blast
  ultimately have "name k = name k'" by simp
  with \<open>inj name\<close> show ?thesis by (simp add: inj_eq)
qed

lemma update_fresh: "k \<notin> fst ` set al \<Longrightarrow> AList.update k v al = al @ [(k, v)]"
  by (induction al) auto

lemma store_x_step:
  "store_x key (m, x) =
     (m\<lparr>variables := variables m @ [XName key]\<rparr>, AList.update key (length (variables m)) x)"
  by (simp add: store_x_def new_bool_var_def Let_def)

lemma fold_store_x_model:
  "fst (fold store_x keys (m, x)) = m\<lparr>variables := variables m @ map XName keys\<rparr>"
  by (induction keys arbitrary: m x) (simp_all add: store_x_step)

lemma fold_store_x_dom:
  "dom (map_of (snd (fold store_x keys (m, x)))) = dom (map_of x) \<union> set keys"
proof (induction keys arbitrary: m x)
  case Nil
  show ?case by simp
next
  case (Cons key keys)
  have "dom (map_of (snd (fold store_x (key # keys) (m, x))))
      = dom (map_of (AList.update key (length (variables m)) x)) \<union> set keys"
    by (simp only: fold_simps store_x_step Cons.IH)
  also have "\<dots> = insert key (dom (map_of x)) \<union> set keys"
    by (simp add: update_conv')
  also have "\<dots> = dom (map_of x) \<union> set (key # keys)" by (simp only: list.set) blast
  finally show ?case .
qed

lemma fold_store_x_names:
  assumes "holds_names XName m x"
  shows "holds_names XName (fst (fold store_x keys (m, x))) (snd (fold store_x keys (m, x)))"
  using assms
proof (induction keys arbitrary: m x)
  case Nil
  then show ?case by simp
next
  case (Cons key keys)
  have "holds_names XName (m\<lparr>variables := variables m @ [XName key]\<rparr>)
          (AList.update key (length (variables m)) x)"
    unfolding holds_names_def
  proof (intro allI impI)
    fix k v
    assume a: "map_of (AList.update key (length (variables m)) x) k = Some v"
    show "v < length (variables (m\<lparr>variables := variables m @ [XName key]\<rparr>))
        \<and> variables (m\<lparr>variables := variables m @ [XName key]\<rparr>) ! v = XName k"
    proof (cases "k = key")
      case True
      with a have "v = length (variables m)" by (simp add: update_conv')
      with True show ?thesis by simp
    next
      case False
      with a have "map_of x k = Some v" by (simp add: update_conv')
      with Cons.prems have "v < length (variables m)" and "variables m ! v = XName k"
        unfolding holds_names_def by blast+
      then show ?thesis by (simp add: nth_append)
    qed
  qed
  from Cons.IH [OF this] show ?case by (simp add: store_x_step)
qed

lemma fold_store_x_distinct:
  assumes "distinct keys" and "set keys \<inter> fst ` set x = {}"
  shows "snd (fold store_x keys (m, x))
           = x @ zip keys [length (variables m) ..< length (variables m) + length keys]"
  using assms
proof (induction keys arbitrary: m x)
  case Nil
  then show ?case by simp
next
  case (Cons key keys)
  let ?n = "length (variables m)"
  let ?m = "m\<lparr>variables := variables m @ [XName key]\<rparr>"
  from Cons.prems have d: "distinct keys" and nk: "key \<notin> set keys"
    and kx: "key \<notin> fst ` set x" by auto
  have u: "AList.update key ?n x = x @ [(key, ?n)]" using kx by (rule update_fresh)
  have disj: "set keys \<inter> fst ` set (x @ [(key, ?n)]) = {}"
    using Cons.prems by auto
  have "snd (fold store_x (key # keys) (m, x)) = snd (fold store_x keys (?m, x @ [(key, ?n)]))"
    by (simp add: store_x_step u)
  also have "\<dots> = (x @ [(key, ?n)]) @ zip keys [Suc ?n ..< Suc ?n + length keys]"
    using Cons.IH [OF d disj, of ?m] by simp
  also have "\<dots> = x @ zip (key # keys) [?n ..< ?n + length (key # keys)]"
  proof -
    have "[?n ..< ?n + length (key # keys)] = ?n # [Suc ?n ..< Suc ?n + length keys]"
      by (subst upt_conv_Cons) simp_all
    then show ?thesis by (simp only: zip_Cons_Cons append_assoc append_Cons append_Nil)
  qed
  finally show ?case .
qed

lemma link_y_step:
  "link_y st x lc (m, y) =
     (m\<lparr>variables := variables m @ [YName lc],
        constraints := constraints m
          @ [LinEq (length (variables m)) (map (x_get x) (pair_keys st (fst lc) (snd lc)))]\<rparr>,
      AList.update lc (length (variables m)) y)"
  by (simp add: link_y_def Let_def)

lemma fold_link_y_model:
  "variables (fst (fold (link_y st x) lcs (m, y))) = variables m @ map YName lcs
   \<and> constraints (fst (fold (link_y st x) lcs (m, y))) =
       constraints m @ map (\<lambda>il. LinEq (fst il)
          (map (x_get x) (pair_keys st (fst (snd il)) (snd (snd il)))))
          (zip [length (variables m) ..< length (variables m) + length lcs] lcs)
   \<and> objective (fst (fold (link_y st x) lcs (m, y))) = objective m"
proof (induction lcs arbitrary: m y)
  case Nil
  show ?case by simp
next
  case (Cons lc lcs)
  let ?n = "length (variables m)"
  let ?m = "m\<lparr>variables := variables m @ [YName lc],
        constraints := constraints m
          @ [LinEq ?n (map (x_get x) (pair_keys st (fst lc) (snd lc)))]\<rparr>"
  have e: "[?n ..< ?n + length (lc # lcs)] = ?n # [Suc ?n ..< Suc ?n + length lcs]"
    by (subst upt_conv_Cons) simp_all
  have f: "fold (link_y st x) (lc # lcs) (m, y)
             = fold (link_y st x) lcs (?m, AList.update lc ?n y)"
    by (simp add: link_y_step)
  show ?case
    unfolding f e using Cons.IH [of ?m "AList.update lc ?n y"] by simp
qed

lemma fold_link_y_dom:
  "dom (map_of (snd (fold (link_y st x) lcs (m, y)))) = dom (map_of y) \<union> set lcs"
proof (induction lcs arbitrary: m y)
  case Nil
  show ?case by simp
next
  case (Cons lc lcs)
  have "dom (map_of (snd (fold (link_y st x) (lc # lcs) (m, y))))
      = dom (map_of (AList.update lc (length (variables m)) y)) \<union> set lcs"
    by (simp only: fold_simps link_y_step Cons.IH)
  also have "\<dots> = insert lc (dom (map_of y)) \<union> set lcs"
    by (simp add: update_conv')
  also have "\<dots> = dom (map_of y) \<union> set (lc # lcs)" by (simp only: list.set) blast
  finally show ?case .
qed

lemma fold_link_y_names:
  assumes "holds_names YName m y"
  shows "holds_names YName (fst (fold (link_y st x) lcs (m, y)))
           (snd (fold (link_y st x) lcs (m, y)))"
  using assms
proof (induction lcs arbitrary: m y)
  case Nil
  then show ?case by simp
next
  case (Cons lc lcs)
  let ?m = "m\<lparr>variables := variables m @ [YName lc],
        constraints := constraints m
          @ [LinEq (length (variables m)) (map (x_get x) (pair_keys st (fst lc) (snd lc)))]\<rparr>"
  have "holds_names YName ?m (AList.update lc (length (variables m)) y)"
    unfolding holds_names_def
  proof (intro allI impI)
    fix k v
    assume a: "map_of (AList.update lc (length (variables m)) y) k = Some v"
    show "v < length (variables ?m) \<and> variables ?m ! v = YName k"
    proof (cases "k = lc")
      case True
      with a have "v = length (variables m)" by (simp add: update_conv')
      with True show ?thesis by simp
    next
      case False
      with a have "map_of y k = Some v" by (simp add: update_conv')
      with Cons.prems have "v < length (variables m)" and "variables m ! v = YName k"
        unfolding holds_names_def by blast+
      then show ?thesis by (simp add: nth_append)
    qed
  qed
  from Cons.IH [OF this] show ?case by (simp add: link_y_step)
qed

lemma fold_link_y_distinct:
  assumes "distinct lcs" and "set lcs \<inter> fst ` set y = {}"
  shows "snd (fold (link_y st x) lcs (m, y))
           = y @ zip lcs [length (variables m) ..< length (variables m) + length lcs]"
  using assms
proof (induction lcs arbitrary: m y)
  case Nil
  then show ?case by simp
next
  case (Cons lc lcs)
  let ?n = "length (variables m)"
  let ?m = "m\<lparr>variables := variables m @ [YName lc],
        constraints := constraints m
          @ [LinEq ?n (map (x_get x) (pair_keys st (fst lc) (snd lc)))]\<rparr>"
  from Cons.prems have d: "distinct lcs" and ky: "lc \<notin> fst ` set y" by auto
  have u: "AList.update lc ?n y = y @ [(lc, ?n)]" using ky by (rule update_fresh)
  have disj: "set lcs \<inter> fst ` set (y @ [(lc, ?n)]) = {}"
    using Cons.prems by auto
  have "snd (fold (link_y st x) (lc # lcs) (m, y))
          = snd (fold (link_y st x) lcs (?m, y @ [(lc, ?n)]))"
    by (simp add: link_y_step u)
  also have "\<dots> = (y @ [(lc, ?n)]) @ zip lcs [Suc ?n ..< Suc ?n + length lcs]"
    using Cons.IH [OF d disj, of ?m] by simp
  also have "\<dots> = y @ zip (lc # lcs) [?n ..< ?n + length (lc # lcs)]"
  proof -
    have "[?n ..< ?n + length (lc # lcs)] = ?n # [Suc ?n ..< Suc ?n + length lcs]"
      by (subst upt_conv_Cons) simp_all
    then show ?thesis by (simp only: zip_Cons_Cons append_assoc append_Cons append_Nil)
  qed
  finally show ?case .
qed

lemma pair_sum_pure:
  assumes ok: "lookups_ok st" and l: "l \<in> set (L st)" and c: "c \<in> set (prog st l)"
  shows "pair_sum st x l c = Inr (map (x_get x) (pair_keys st l c))"
  unfolding pair_sum_def pair_keys_def
  by (simp add: lookups_teachers [OF ok l c] concat_err_pure map_concat comp_def)

lemma store_y_pure:
  assumes ok: "lookups_ok st" and l: "l \<in> set (L st)" and c: "c \<in> set (prog st l)"
  shows "store_y st x l c my = Inr (link_y st x (l, c) my)"
  by (simp add: store_y_def link_y_def new_bool_var_def Let_def dict_get_def update_conv'
      pair_sum_pure [OF ok l c])

lemma fold_pairs:
  "fold f (pairs st) = fold (\<lambda>l. fold (\<lambda>c. f (l, c)) (prog st l)) (L st)"
  by (simp add: pairs_def fold_concat_map fold_map comp_def)

lemma create_y_pure:
  assumes ok: "lookups_ok st"
  shows "create_y st x my = Inr (fold (link_y st x) (pairs st) my)"
proof -
  have "create_y st x my =
     fold_err (\<lambda>l my. Inr (fold (\<lambda>c. link_y st x (l, c)) (prog st l) my)) (L st) my"
    unfolding create_y_def
    by (intro fold_err_cong refl)
       (simp add: lookups_prog [OF ok] store_y_pure [OF ok] fold_err_pure
          cong: fold_err_cong)
  then show ?thesis by (simp add: fold_err_pure fold_pairs)
qed

lemma course_once_pure:
  assumes ok: "lookups_ok st"
  shows "course_once st x =
     Inr (map (\<lambda>lc. LinLe (map (x_get x) (pair_keys st (fst lc) (snd lc))) 1) (pairs st))"
proof -
  have "course_once st x =
     concat_err (\<lambda>l. Inr (concat (map (\<lambda>c.
        [LinLe (map (x_get x) (pair_keys st l c)) 1]) (prog st l)))) (L st)"
    unfolding course_once_def
    by (intro concat_err_cong refl)
       (simp add: lookups_prog [OF ok] pair_sum_pure [OF ok] concat_err_pure
          cong: concat_err_cong)
  then show ?thesis
    by (simp add: concat_err_pure pairs_def map_concat comp_def)
qed

lemma class_conflicts_pure:
  assumes ok: "lookups_ok st"
  shows "\<exists>cs. class_conflicts st x = Inr cs
     \<and> (\<forall>k \<in> set cs. \<exists>e. k = LinLe e 1 \<and> (\<forall>s \<in> set e. \<exists>key. s = x_get x key))"
proof -
  have "class_conflicts st x =
     concat_err (\<lambda>l. Inr (concat (map (\<lambda>d. concat (map (\<lambda>p.
       [LinLe (concat (map (\<lambda>c. concat (map (\<lambda>r.
           map (\<lambda>t. x_get x (l, c, r, d, p, t)) (teachers st c)) (R st))) (prog st l))) 1]) P)) D)))
     (L st)"
    unfolding class_conflicts_def
    by (intro concat_err_cong refl)
       (simp add: lookups_prog [OF ok] lookups_teachers [OF ok] concat_err_pure
          cong: concat_err_cong)
  then show ?thesis by (fastforce simp: concat_err_pure)
qed

lemma all_programme_lookups:
  assumes ok: "lookups_ok st"
  shows "concat_err (\<lambda>l. bind_err (dict_get (programme st) l) (\<lambda>cs.
           concat_err (\<lambda>c. bind_err (dict_get (course_teachers st) c) (f l c)) cs)) (L st)
       = concat_err (\<lambda>l. concat_err (\<lambda>c. f l c (teachers st c)) (prog st l)) (L st)"
  by (intro concat_err_cong refl)
     (simp add: lookups_prog [OF ok] lookups_teachers [OF ok] cong: concat_err_cong)

lemma teacher_conflicts_pure:
  assumes ok: "lookups_ok st"
  shows "\<exists>cs. teacher_conflicts st x = Inr cs
     \<and> (\<forall>k \<in> set cs. \<exists>e. k = LinLe e 1 \<and> (\<forall>s \<in> set e. \<exists>key. s = x_get x key))"
proof -
  have "teacher_conflicts st x =
     concat_err (\<lambda>t. Inr (concat (map (\<lambda>d. concat (map (\<lambda>p.
       [LinLe (concat (map (\<lambda>l. concat (map (\<lambda>c.
           if t \<in> set (teachers st c) then map (\<lambda>r. x_get x (l, c, r, d, p, t)) (R st) else [])
          (prog st l))) (L st))) 1]) P)) D)))
     (T st)"
    unfolding teacher_conflicts_def all_programme_lookups [OF ok]
    by (simp add: concat_err_pure if_distrib [of Inr, symmetric] cong: concat_err_cong)
  then show ?thesis by (fastforce simp: concat_err_pure split: if_splits)
qed

lemma room_conflicts_pure:
  assumes ok: "lookups_ok st"
  shows "\<exists>cs. room_conflicts st x = Inr cs
     \<and> (\<forall>k \<in> set cs. \<exists>e. k = LinLe e 1 \<and> (\<forall>s \<in> set e. \<exists>key. s = x_get x key))"
proof -
  have "room_conflicts st x =
     concat_err (\<lambda>r. Inr (concat (map (\<lambda>d. concat (map (\<lambda>p.
       [LinLe (concat (map (\<lambda>l. concat (map (\<lambda>c.
           map (\<lambda>t. x_get x (l, c, r, d, p, t)) (teachers st c))
          (prog st l))) (L st))) 1]) P)) D)))
     (R st)"
    unfolding room_conflicts_def all_programme_lookups [OF ok]
    by (simp add: concat_err_pure cong: concat_err_cong)
  then show ?thesis by (fastforce simp: concat_err_pure)
qed

lemma mem_pair_keys:
  "(l', c', r, d, p, t) \<in> set (pair_keys st l c) \<longleftrightarrow>
     l' = l \<and> c' = c \<and> r \<in> set (R st) \<and> d \<in> set D \<and> p \<in> set P \<and> t \<in> set (teachers st c)"
  by (auto simp: pair_keys_def)

lemma mem_all_keys:
  "(l, c, r, d, p, t) \<in> set (all_keys st) \<longleftrightarrow>
     l \<in> set (L st) \<and> c \<in> set (prog st l) \<and> r \<in> set (R st) \<and> d \<in> set D \<and> p \<in> set P
     \<and> t \<in> set (teachers st c)"
  by (auto simp: all_keys_def mem_pair_keys)

lemma mem_pairs: "(l, c) \<in> set (pairs st) \<longleftrightarrow> l \<in> set (L st) \<and> c \<in> set (prog st l)"
  by (auto simp: pairs_def)

lemma weights_lookup: "p \<in> set P \<Longrightarrow> dict_get weights p = Inr (weight p)"
  by (auto simp: P_def weights_def weight_def dict_get_def)

lemma concat_concat_map:
  "concat (concat (map (\<lambda>a. map (f a) (g a)) as)) = concat (map (\<lambda>a. concat (map (f a) (g a))) as)"
  by (induction as) auto

lemma dict_get_var_at: "k \<in> dom (map_of d) \<Longrightarrow> dict_get d k = Inr (var_at d k)"
  by (auto simp: dict_get_def var_at_def)

lemma map_of_var_at: "k \<in> dom (map_of d) \<Longrightarrow> map_of d k = Some (var_at d k)"
  by (auto simp: var_at_def)

lemma x_get_var_at: "k \<in> dom (map_of x) \<Longrightarrow> x_get x k = Term 1 (var_at x k)"
  by (auto simp: x_get_def var_at_def)

lemma objective_y_pure:
  assumes ok: "lookups_ok st" and dom: "set (pairs st) \<subseteq> dom (map_of y)"
  shows "objective_y st y =
     Inr (concat (map (\<lambda>lc. [Term 1000 (var_at y lc), Term (credit st (snd lc)) (var_at y lc)])
            (pairs st)))"
proof -
  have in_y: "dict_get y (l, c) = Inr (var_at y (l, c))"
    if "l \<in> set (L st)" and "c \<in> set (prog st l)" for l c
  proof -
    from that have "(l, c) \<in> set (pairs st)" by (simp add: mem_pairs)
    with dom have "(l, c) \<in> dom (map_of y)" by blast
    then show ?thesis by (rule dict_get_var_at)
  qed
  have "objective_y st y =
     concat_err (\<lambda>l. Inr (concat (map (\<lambda>c.
        [Term 1000 (var_at y (l, c)), Term (credit st c) (var_at y (l, c))]) (prog st l)))) (L st)"
    unfolding objective_y_def
    by (intro concat_err_cong refl)
       (simp add: lookups_prog [OF ok] in_y concat_err_pure credit_def
          cong: concat_err_cong)
  then show ?thesis
    by (simp add: concat_err_pure pairs_def map_concat comp_def concat_concat_map)
qed

lemma objective_x_pure:
  assumes ok: "lookups_ok st" and dom: "set (all_keys st) \<subseteq> dom (map_of x)"
  shows "objective_x st x =
     Inr (map (\<lambda>key. Term (weight (period key)) (var_at x key)) (all_keys st))"
proof -
  have in_x: "map_of x (l, c, r, d, p, t) = Some (var_at x (l, c, r, d, p, t))"
    if "l \<in> set (L st)" and "c \<in> set (prog st l)" and "r \<in> set (R st)" and "d \<in> set D"
      and "p \<in> set P" and "t \<in> set (teachers st c)" for l c r d p t
  proof -
    from that have "(l, c, r, d, p, t) \<in> set (all_keys st)" by (simp add: mem_all_keys)
    with dom have "(l, c, r, d, p, t) \<in> dom (map_of x)" by blast
    then show ?thesis by (rule map_of_var_at)
  qed
  have "objective_x st x =
     concat_err (\<lambda>l. Inr (concat (map (\<lambda>c.
        map (\<lambda>key. Term (weight (period key)) (var_at x key)) (pair_keys st l c)) (prog st l)))) (L st)"
    unfolding objective_x_def pair_keys_def
    by (intro concat_err_cong refl)
       (simp add: lookups_prog [OF ok] lookups_teachers [OF ok] in_x weights_lookup
          concat_err_pure period_def map_concat comp_def
          cong: concat_err_cong)
  then show ?thesis
    by (simp add: concat_err_pure all_keys_def map_concat comp_def)
qed

lemma x_dict_dom: "dom (map_of (x_dict st)) = set (all_keys st)"
  by (simp add: x_dict_def fold_store_x_dom)

lemma y_dict_dom: "dom (map_of (y_dict st)) = set (pairs st)"
  by (simp add: y_dict_def fold_link_y_dom)

lemma x_model_variables:
  "variables (fst (fold store_x (all_keys st) (empty_model, []))) = map XName (all_keys st)"
  by (simp add: fold_store_x_model empty_model_def)

lemma x_model_rest:
  "constraints (fst (fold store_x (all_keys st) (empty_model, []))) = []"
  "objective (fst (fold store_x (all_keys st) (empty_model, []))) = []"
  by (simp_all add: fold_store_x_model empty_model_def)

lemma x_dict_names:
  "holds_names XName (fst (fold store_x (all_keys st) (empty_model, []))) (x_dict st)"
  unfolding x_dict_def by (rule fold_store_x_names) (rule holds_names_empty)

lemma build_model_pure:
  assumes ok: "lookups_ok st"
  shows "\<exists>c1 c3 c4 m.
     (\<forall>k \<in> set (c1 @ c3 @ c4). \<exists>e. k = LinLe e 1
        \<and> (\<forall>s \<in> set e. \<exists>key. s = x_get (x_dict st) key))
   \<and> build_model st = Inr (x_dict st, y_dict st, m)
   \<and> variables m = map XName (all_keys st) @ map YName (pairs st)
   \<and> constraints m =
       map (\<lambda>il. LinEq (fst il)
              (map (x_get (x_dict st)) (pair_keys st (fst (snd il)) (snd (snd il)))))
         (zip [length (all_keys st) ..< length (all_keys st) + length (pairs st)] (pairs st))
       @ c1
       @ map (\<lambda>lc. LinLe (map (x_get (x_dict st)) (pair_keys st (fst lc) (snd lc))) 1) (pairs st)
       @ c3 @ c4
   \<and> objective m =
       concat (map (\<lambda>lc. [Term 1000 (var_at (y_dict st) lc),
                           Term (credit st (snd lc)) (var_at (y_dict st) lc)]) (pairs st))
       @ map (\<lambda>key. Term (weight (period key)) (var_at (x_dict st) key)) (all_keys st)"
proof -
  let ?x = "x_dict st" and ?y = "y_dict st"
  let ?mx = "fold store_x (all_keys st) (empty_model, [])"
  let ?my = "fold (link_y st ?x) (pairs st) (fst ?mx, [])"
  from class_conflicts_pure [OF ok] obtain c1 where c1: "class_conflicts st ?x = Inr c1"
    and k1: "\<forall>k \<in> set c1. \<exists>e. k = LinLe e 1 \<and> (\<forall>s \<in> set e. \<exists>key. s = x_get ?x key)"
    by blast
  from teacher_conflicts_pure [OF ok] obtain c3 where c3: "teacher_conflicts st ?x = Inr c3"
    and k3: "\<forall>k \<in> set c3. \<exists>e. k = LinLe e 1 \<and> (\<forall>s \<in> set e. \<exists>key. s = x_get ?x key)"
    by blast
  from room_conflicts_pure [OF ok] obtain c4 where c4: "room_conflicts st ?x = Inr c4"
    and k4: "\<forall>k \<in> set c4. \<exists>e. k = LinLe e 1 \<and> (\<forall>s \<in> set e. \<exists>key. s = x_get ?x key)"
    by blast
  have k: "\<forall>k \<in> set (c1 @ c3 @ c4). \<exists>e. k = LinLe e 1
        \<and> (\<forall>s \<in> set e. \<exists>key. s = x_get ?x key)"
    using k1 k3 k4 by auto
  let ?c2 = "map (\<lambda>lc. LinLe (map (x_get ?x) (pair_keys st (fst lc) (snd lc))) 1) (pairs st)"
  let ?o1 = "concat (map (\<lambda>lc. [Term 1000 (var_at ?y lc),
                           Term (credit st (snd lc)) (var_at ?y lc)]) (pairs st))"
  let ?o2 = "map (\<lambda>key. Term (weight (period key)) (var_at ?x key)) (all_keys st)"
  let ?m = "(fst ?my)\<lparr>constraints := constraints (fst ?my) @ c1 @ ?c2 @ c3 @ c4,
                      objective := ?o1 @ ?o2\<rparr>"
  have sx: "snd ?mx = ?x" by (simp add: x_dict_def)
  have sy: "snd ?my = ?y" by (simp add: y_dict_def)
  have oy: "objective_y st ?y = Inr ?o1"
    by (rule objective_y_pure [OF ok]) (simp add: y_dict_dom)
  have ox: "objective_x st ?x = Inr ?o2"
    by (rule objective_x_pure [OF ok]) (simp add: x_dict_dom)
  have b: "build_model st = Inr (?x, ?y, ?m)"
    unfolding build_model_def
    by (simp add: create_x_pure [OF ok] create_y_pure [OF ok] sx sy c1 c3 c4
        course_once_pure [OF ok] oy ox)
  have pre: "fst ?my = fst (fold (link_y st ?x) (pairs st) (fst ?mx, []))" by simp
  have v: "variables ?m = map XName (all_keys st) @ map YName (pairs st)"
    using fold_link_y_model [of st ?x "pairs st" "fst ?mx" "[]"]
    by (simp add: x_model_variables)
  have cs: "constraints ?m =
       map (\<lambda>il. LinEq (fst il)
              (map (x_get ?x) (pair_keys st (fst (snd il)) (snd (snd il)))))
         (zip [length (all_keys st) ..< length (all_keys st) + length (pairs st)] (pairs st))
       @ c1 @ ?c2 @ c3 @ c4"
    using fold_link_y_model [of st ?x "pairs st" "fst ?mx" "[]"]
    by (simp add: x_model_variables x_model_rest)
  have ob: "objective ?m = ?o1 @ ?o2" by simp
  from k b v cs ob show ?thesis by blast
qed

lemma build_model_names:
  assumes b: "build_model st = Inr (x, y, m)" and ok: "lookups_ok st"
  shows "holds_names XName m x \<and> holds_names YName m y"
proof -
  let ?mx = "fold store_x (all_keys st) (empty_model, [])"
  let ?my = "fold (link_y st (x_dict st)) (pairs st) (fst ?mx, [])"
  from build_model_pure [OF ok] b have x: "x = x_dict st" and y: "y = y_dict st"
    and v: "variables m = map XName (all_keys st) @ map YName (pairs st)"
    by auto
  have vy: "variables (fst ?my) = variables m"
    using fold_link_y_model [of st "x_dict st" "pairs st" "fst ?mx" "[]"]
    by (simp add: v x_model_variables)
  have "holds_names XName (fst ?mx) (x_dict st)" by (rule x_dict_names)
  then have hx: "holds_names XName m x"
    unfolding x by (rule holds_names_extended) (simp add: v x_model_variables)
  have "holds_names YName (fst ?my) (snd ?my)"
    by (rule fold_link_y_names) (rule holds_names_empty)
  then have "holds_names YName m (snd ?my)"
    by (rule holds_names_extended) (simp add: vy)
  then have hy: "holds_names YName m y" by (simp add: y y_dict_def)
  from hx hy show ?thesis ..
qed

lemma catalogue_inv_lookups: "catalogue_inv st seen \<Longrightarrow> lookups_ok st"
  unfolding catalogue_inv_def lookups_ok_def by (meson subsetD)

text \<open>
  Claim C10. \<open>clean_string\<close> returns the empty string for every value that is not a
  string, and for a string the value without its leading and trailing whitespace. So a
  course descriptor whose \<open>code\<close> is not a string or is blank after trimming, and a room
  record whose \<open>num\<close> is not a string or is blank after trimming, leave the catalogue as
  it is and raise nothing: the loops of \<open>extract_data\<close> go on as if the record were not
  there.
\<close>

theorem clean_string_skips_blank:
  assumes blank: "\<forall>s. cv = JStr s \<longrightarrow> strip s = []"
    and code: "map_of subject ''code'' = Some cv"
    and num: "map_of room ''num'' = Some cv"
  shows "clean_string (JStr s) = strip s
    \<and> (\<exists>pre post. s = pre @ strip s @ post \<and> (\<forall>c \<in> set pre \<union> set post. is_space c))
    \<and> (strip s \<noteq> [] \<longrightarrow> \<not> is_space (hd (strip s)) \<and> \<not> is_space (last (strip s)))
    \<and> ((\<forall>s'. v \<noteq> JStr s') \<longrightarrow> clean_string v = [])
    \<and> process_subject cn (JObj subject) st = Inr st
    \<and> fold_err (process_subject cn) (xs @ JObj subject # ys) st
        = fold_err (process_subject cn) (xs @ ys) st
    \<and> process_room (JObj room) st = Inr st
    \<and> fold_err process_room (rs @ JObj room # rs') st = fold_err process_room (rs @ rs') st"
proof -
  have cl: "clean_string cv = []" using blank by (rule clean_string_blank)
  have v: "(\<forall>s'. v \<noteq> JStr s') \<longrightarrow> clean_string v = []" by (cases v) auto
  have ps: "\<And>st. process_subject cn (JObj subject) st = Inr st"
    using cl code by (rule process_subject_blank)
  have pr: "\<And>st. process_room (JObj room) st = Inr st"
    using cl num by (rule process_room_blank)
  show ?thesis
    using strip_decompose [of s] strip_ends [of s] v ps pr
      fold_err_skip [of "process_subject cn" "JObj subject" xs ys st, OF ps]
      fold_err_skip [of process_room "JObj room" rs rs' st, OF pr]
    by simp
qed

theorem clean_string_skips_blank_witness:
  "strip ''  '' = []
   \<and> map_of [(''code'', JStr ''  ''), (''credit'', JInt 3)] ''code'' = Some (JStr ''  '')
   \<and> map_of [(''num'', JStr ''  '')] ''num'' = Some (JStr ''  '')
   \<and> clean_string (JInt 7) = []
   \<and> process_subject ''Niveau 1-s1'' (JObj [(''code'', JStr ''  ''), (''credit'', JInt 3)])
         init_catalogue = Inr init_catalogue
   \<and> process_room (JObj [(''num'', JStr ''  '')]) init_catalogue = Inr init_catalogue"
  using clean_string_skips_blank [of "JStr ''  ''" "[(''code'', JStr ''  ''), (''credit'', JInt 3)]"
      "[(''num'', JStr ''  '')]" "[]" "JInt 7" "''Niveau 1-s1''" init_catalogue "[]" "[]" "[]" "[]"]
  by (simp add: strip_def is_space_def)

section \<open>Claims about the catalogue\<close>

text \<open>
  Claim C3. When \<open>extract_data\<close> completes, every course code of the course list has a
  teacher list with at least one element. A descriptor with a non-blank code and no
  non-blank primary or assistant lecturer leaves the default teacher
  \<open>ENSEIGNANT_DEFAUT\<close> in the teacher list of its course, and its course is in the list.
\<close>

theorem every_course_has_teacher:
  assumes run: "extract_data subjects_data rooms_data = Inr st"
  shows "(\<forall>c \<in> set (C st). \<exists>ts. map_of (course_teachers st) c = Some ts \<and> ts \<noteq> [])
    \<and> (\<forall>subject. JObj subject \<in> set (all_subjects subjects_data)
          \<and> descriptor_code (JObj subject) \<noteq> [] \<and> declared_lecturers subject = [] \<longrightarrow>
          descriptor_code (JObj subject) \<in> set (C st)
        \<and> (\<exists>ts. map_of (course_teachers st) (descriptor_code (JObj subject)) = Some ts
              \<and> default_teacher \<in> set ts))"
proof -
  from extract_data_inv [OF run] have
    i1: "set (C st) = set (filter (\<lambda>c. c \<noteq> []) (map descriptor_code (all_subjects subjects_data)))"
    and i3: "\<forall>c \<in> set (C st). \<exists>ts. map_of (course_teachers st) c = Some ts \<and> ts \<noteq> []"
    and i5: "\<forall>subject. JObj subject \<in> set (all_subjects subjects_data)
         \<and> descriptor_code (JObj subject) \<noteq> [] \<and> declared_lecturers subject = [] \<longrightarrow>
         (\<exists>ts. map_of (course_teachers st) (descriptor_code (JObj subject)) = Some ts
             \<and> default_teacher \<in> set ts)"
    unfolding catalogue_inv_def by blast+
  have "descriptor_code (JObj subject) \<in> set (C st)"
    if "JObj subject \<in> set (all_subjects subjects_data)"
      and "descriptor_code (JObj subject) \<noteq> []" for subject
    using seen_code_known [OF i1 that] .
  with i3 i5 show ?thesis by blast
qed

theorem every_course_has_teacher_witness:
  "extract_data sample_subjects sample_rooms = Inr sample_catalogue
   \<and> ''INF121'' \<in> set (C sample_catalogue)
   \<and> (\<exists>ts. map_of (course_teachers sample_catalogue) ''INF121'' = Some ts \<and> ts \<noteq> []
          \<and> default_teacher \<in> set ts)"
proof -
  let ?sb = "[(''code'', JStr ''INF121'')]"
  have a: "JObj ?sb \<in> set (all_subjects sample_subjects)"
    by (simp add: all_subjects_def sample_subjects_def subjects_of_level_def
        subjects_of_semester_def dict_get_def)
  have b: "descriptor_code (JObj ?sb) = ''INF121''"
    by (simp add: strip_def is_space_def)
  have c: "declared_lecturers ?sb = []"
    by (simp add: declared_lecturers_def field_lecturers_def)
  from every_course_has_teacher [OF sample_run] a b c
  have "''INF121'' \<in> set (C sample_catalogue)
     \<and> (\<exists>ts. map_of (course_teachers sample_catalogue) ''INF121'' = Some ts
           \<and> default_teacher \<in> set ts)"
    by (metis (no_types, lifting) list.distinct(1))
  then show ?thesis using sample_run by auto
qed

text \<open>
  Claim C7. The credit stored for a course is the credit that the first descriptor with
  its code declares: the integer that \<open>int\<close> makes of its \<open>credit\<close> field, and 0 when
  the field is missing or \<open>int\<close> raises. Descriptors that repeat the code later leave the
  stored credit as it is.
\<close>

theorem first_descriptor_fixes_credit:
  assumes run: "extract_data subjects_data rooms_data = Inr st"
    and c: "c \<in> set (C st)"
  shows "\<exists>subject n.
      find (\<lambda>d. descriptor_code d = c) (all_subjects subjects_data) = Some (JObj subject)
    \<and> map_of (course_credits st) c = Some n
    \<and> converted_credit subject n
    \<and> (\<forall>k. converted_credit subject k \<longrightarrow> k = n)"
proof -
  from extract_data_inv [OF run] have
    "\<forall>c \<in> set (C st). \<exists>subject.
         find (\<lambda>d. descriptor_code d = c) (all_subjects subjects_data) = Some (JObj subject)
       \<and> map_of (course_credits st) c = Some (credit_of subject)"
    unfolding catalogue_inv_def by blast
  with c obtain subject where
    f: "find (\<lambda>d. descriptor_code d = c) (all_subjects subjects_data) = Some (JObj subject)"
    and cr: "map_of (course_credits st) c = Some (credit_of subject)" by blast
  have "converted_credit subject (credit_of subject)"
    and "\<forall>k. converted_credit subject k \<longrightarrow> k = credit_of subject"
    by (simp_all add: credit_of_converted)
  with f cr show ?thesis by blast
qed

theorem first_descriptor_fixes_credit_witness:
  "extract_data credit_subjects sample_rooms = Inr credit_catalogue
   \<and> ''INF111'' \<in> set (C credit_catalogue)
   \<and> find (\<lambda>d. descriptor_code d = ''INF111'') (all_subjects credit_subjects)
       = Some (JObj [(''code'', JStr ''INF111''), (''credit'', JStr '' +1_2 '')])
   \<and> map_of (course_credits credit_catalogue) ''INF111'' = Some 12
   \<and> int_literal '' +1_2 '' 12
   \<and> map_of (course_credits credit_catalogue) ''INF121'' = Some 0
   \<and> \<not> (\<exists>k. int_literal (CHR 0x1C # ''7'') k)
   \<and> map_of (course_credits credit_catalogue) ''INF131'' = Some 2
   \<and> float_trunc (Finite 11 (- 2)) 2"
proof -
  have c: "''INF111'' \<in> set (C credit_catalogue)" by (simp add: credit_catalogue_def)
  have f: "find (\<lambda>d. descriptor_code d = ''INF111'') (all_subjects credit_subjects)
       = Some (JObj [(''code'', JStr ''INF111''), (''credit'', JStr '' +1_2 '')])"
    by (simp add: all_subjects_def credit_subjects_def subjects_of_level_def
        subjects_of_semester_def dict_get_def strip_def is_space_def)
  have m: "map_of (course_credits credit_catalogue) ''INF111'' = Some 12"
    "map_of (course_credits credit_catalogue) ''INF121'' = Some 0"
    "map_of (course_credits credit_catalogue) ''INF131'' = Some 2"
    by (simp_all add: credit_catalogue_def)
  from first_descriptor_fixes_credit [OF credit_run c] f m(1)
  have "converted_credit [(''code'', JStr ''INF111''), (''credit'', JStr '' +1_2 '')] 12"
    by auto
  then have l: "int_literal '' +1_2 '' 12"
    by (auto simp: converted_credit_def split: if_splits)
  have "int_of_str (CHR 0x1C # ''7'') = Inl ValueError" by code_simp
  then have n: "\<not> (\<exists>k. int_literal (CHR 0x1C # ''7'') k)"
    unfolding int_of_str_literal [symmetric] by simp
  have "int_of_float (Finite 11 (- 2)) = Inr 2" by code_simp
  then have t: "float_trunc (Finite 11 (- 2)) 2"
    by (simp only: int_of_float_trunc)
  from credit_run c f m l n t show ?thesis by blast
qed

text \<open>
  Claim C2 says that no teacher list of the catalogue has a duplicate entry, the default
  teacher included. Lines 86-89 and 97-100 test \<open>lecturer not in
  self.course_teachers[course_code]\<close> before they append a lecturer; lines 104-107 test
  only \<open>self.T\<close> and append the default teacher to the course's list without looking at
  it. On the small input, where \<open>INF121\<close> is declared in two semesters without a lecturer,
  the run leaves the default teacher twice in the list of \<open>INF121\<close>.
\<close>

theorem default_teacher_appended_twice:
  "map_sum id (\<lambda>st. map_of (course_teachers st) ''INF121'')
     (extract_data sample_subjects sample_rooms)
   = Inr (Some [''ENSEIGNANT_DEFAUT'', ''ENSEIGNANT_DEFAUT''])"
  by code_simp

end
